theory Spec2Isabelle
  imports Main "HOL-Library.Word" "HOL-Library.Extended_Nat"
begin

unbundle bit_operations_syntax

section \<open>The AT24C256 example: constants and data\<close>

text \<open>
  This theory embeds \<^verbatim>\<open>Examples/i2c_eeprom_AT24C256/main.c\<close>: the EEPROM driver
  (\<^verbatim>\<open>eeprom_wait_ready\<close>, \<^verbatim>\<open>_eeprom_write_page_raw\<close>, \<^verbatim>\<open>eeprom_write_buffer\<close>,
  \<^verbatim>\<open>eeprom_read_buffer\<close>, \<^verbatim>\<open>eeprom_write_byte\<close>, \<^verbatim>\<open>eeprom_read_byte\<close>,
  \<^verbatim>\<open>eeprom_update_byte\<close>) and the settings layer (\<^verbatim>\<open>calc_checksum\<close>,
  \<^verbatim>\<open>settings_save\<close>, \<^verbatim>\<open>settings_init\<close>). The C functions return \<^verbatim>\<open>void\<close> and act on
  the I2C bus and on the global \<^verbatim>\<open>current_settings\<close>; here they pass a state record. The
  \<^verbatim>\<open>printf\<close> calls write to the console only and are left out.
\<close>

type_synonym u8 = "8 word"
type_synonym u16 = "16 word"
type_synonym i32 = "32 word"

definition AT24C256_ADDRESS :: nat where
  "AT24C256_ADDRESS = 0x50"

definition PAGE_SIZE :: nat where
  "PAGE_SIZE = 64"

definition SETTINGS_ADDR :: u16 where
  "SETTINGS_ADDR = 0x0000"

definition MAGIC_CODE :: u16 where
  "MAGIC_CODE = 0xA55A"

text \<open>
  The device capacity is not a C constant; the header comment of main.c gives it
  (32,768 x 8, organised as 512 pages of 64 bytes).
\<close>

definition CAPACITY :: nat where
  "CAPACITY = 32768"

text \<open>The SDK's error code, returned by a transfer whose address is not acknowledged.\<close>

definition PICO_ERROR_GENERIC :: int where
  "PICO_ERROR_GENERIC = - 1"

text \<open>
  \<^verbatim>\<open>SystemSettings\<close>: 40 bytes, members in declaration order without padding
  (offsets 0, 4, 6, 38, 39).
\<close>

record SystemSettings =
  motor_offset :: i32
  magic :: u16
  wifi_ssid :: "u8 list"
  volume :: u8
  checksum :: u8

definition sizeof_SystemSettings :: nat where
  "sizeof_SystemSettings = 40"

text \<open>
  A bus transaction as the transport sees it: the 7-bit device address, the bytes sent
  (or the number of bytes asked for), the \<^verbatim>\<open>nostop\<close> flag and the value the SDK call
  returned.
\<close>

datatype bus_event =
    BusWrite nat "u8 list" bool int
  | BusRead nat nat bool int

text \<open>
  The state the program acts on: the device's cells, its internal address counter, the
  time in microseconds for which it stays busy (\<open>\<infinity>\<close>: it never answers again), the
  length of its write cycle, the log of bus transactions, and the global
  \<^verbatim>\<open>current_settings\<close>. The local \<^verbatim>\<open>dummy\<close> of \<^verbatim>\<open>eeprom_wait_ready\<close> is never
  initialised, so each call finds some byte in it that the program does not choose:
  \<open>dummy_at s n\<close> is the byte found by the call number \<open>n\<close>, and \<open>wait_calls s\<close> counts
  the calls made so far.
\<close>

record world =
  mem :: "nat \<Rightarrow> u8"
  ptr :: nat
  busy :: enat
  twr :: enat
  trace :: "bus_event list"
  dummy_at :: "nat \<Rightarrow> u8"
  wait_calls :: nat
  current_settings :: SystemSettings

section \<open>The bus and the device\<close>

text \<open>
  The SDK's \<^verbatim>\<open>i2c_write_blocking\<close>, \<^verbatim>\<open>i2c_read_blocking\<close> and \<^verbatim>\<open>sleep_us\<close> and the
  device behind them are not part of the repository; this section models them.
\<close>

text \<open>
  Modelled from the spec: the transport's record of a transfer, which the SDK does not
  keep. Every transfer, acknowledged or not, is appended to the log with its result.
\<close>

definition log_event :: "bus_event \<Rightarrow> world \<Rightarrow> world" where
  "log_event e s = s\<lparr>trace := trace s @ [e]\<rparr>"

text \<open>
  Modelled from the spec: the device's decoding of the two address bytes, which is in the
  part and not in main.c. The offset arrives high byte first; the address space is the
  range below \<open>CAPACITY\<close>, so the sixteenth bit does not count.
\<close>

definition wire_addr :: "u8 \<Rightarrow> u8 \<Rightarrow> nat" where
  "wire_addr hi lo = (unat hi * 256 + unat lo) mod CAPACITY"

text \<open>
  Modelled from the spec: the device's address counter during a write, which is in the
  part and not in main.c. It wraps within the page instead of going on into the next.
\<close>

definition page_next :: "nat \<Rightarrow> nat" where
  "page_next a = (a div PAGE_SIZE) * PAGE_SIZE + (a + 1) mod PAGE_SIZE"

text \<open>
  Modelled from the spec: the cells after the device has taken the data bytes of one
  write transaction (the part's page buffer, not in main.c).
\<close>

fun page_store :: "nat \<Rightarrow> u8 list \<Rightarrow> (nat \<Rightarrow> u8) \<Rightarrow> (nat \<Rightarrow> u8)" where
  "page_store a [] m = m"
| "page_store a (b # bs) m = page_store (page_next a) bs (m(a := b))"

text \<open>
  Modelled from the spec: the device's address counter after those data bytes (not in
  main.c).
\<close>

fun page_end :: "nat \<Rightarrow> u8 list \<Rightarrow> nat" where
  "page_end a [] = a"
| "page_end a (b # bs) = page_end (page_next a) bs"

text \<open>
  Modelled from the spec: what an acknowledged write transfer does to the device (the
  part, not in main.c). Two bytes set the address counter. Two bytes and data store the
  data and, on the stop condition, start the write cycle, during which the device is
  busy. Fewer than two bytes change nothing.
\<close>

fun device_write :: "u8 list \<Rightarrow> bool \<Rightarrow> world \<Rightarrow> world" where
  "device_write (hi # lo # []) nostop s = s\<lparr>ptr := wire_addr hi lo\<rparr>"
| "device_write (hi # lo # d) nostop s =
     (if nostop then s\<lparr>ptr := wire_addr hi lo\<rparr>
      else s\<lparr>mem := page_store (wire_addr hi lo) d (mem s),
             ptr := page_end (wire_addr hi lo) d,
             busy := twr s\<rparr>)"
| "device_write src nostop s = s"

text \<open>
  Modelled from the spec: the SDK's \<^verbatim>\<open>i2c_write_blocking\<close>, which is not in the
  repository. The device acknowledges its address unless it is busy; then the call
  returns the number of bytes written, otherwise \<^verbatim>\<open>PICO_ERROR_GENERIC\<close>.
\<close>

definition i2c_write_blocking :: "nat \<Rightarrow> u8 list \<Rightarrow> bool \<Rightarrow> world \<Rightarrow> int \<times> world" where
  "i2c_write_blocking a src nostop s =
     (if a = AT24C256_ADDRESS \<and> busy s = 0
      then (int (length src),
            log_event (BusWrite a src nostop (int (length src))) (device_write src nostop s))
      else (PICO_ERROR_GENERIC, log_event (BusWrite a src nostop PICO_ERROR_GENERIC) s))"

text \<open>
  Modelled from the spec: the bytes a read transfer delivers (the part, not in main.c):
  the cells from the address counter on, across page boundaries.
\<close>

definition device_read :: "nat \<Rightarrow> world \<Rightarrow> u8 list" where
  "device_read n s = map (\<lambda>i. mem s ((ptr s + i) mod CAPACITY)) [0..<n]"

text \<open>
  Modelled from the spec: the SDK's \<^verbatim>\<open>i2c_read_blocking\<close>, which is not in the
  repository. The destination buffer is passed in and handed back: a transfer that fails
  leaves it as it was, one that succeeds overwrites its first \<open>n\<close> bytes.
\<close>

definition i2c_read_blocking ::
  "nat \<Rightarrow> u8 list \<Rightarrow> nat \<Rightarrow> bool \<Rightarrow> world \<Rightarrow> int \<times> u8 list \<times> world" where
  "i2c_read_blocking a dst n nostop s =
     (if a = AT24C256_ADDRESS \<and> busy s = 0
      then (int n, device_read n s @ drop n dst,
            log_event (BusRead a n nostop (int n)) (s\<lparr>ptr := (ptr s + n) mod CAPACITY\<rparr>))
      else (PICO_ERROR_GENERIC, dst, log_event (BusRead a n nostop PICO_ERROR_GENERIC) s))"

text \<open>
  Modelled from the spec: the SDK's \<^verbatim>\<open>sleep_us\<close>, which is not in the repository. Time
  passes here and nowhere else, so the write cycle of the device runs down by the
  microseconds slept.
\<close>

definition sleep_us :: "nat \<Rightarrow> world \<Rightarrow> world" where
  "sleep_us us s = s\<lparr>busy := busy s - enat us\<rparr>"

section \<open>The EEPROM driver\<close>

text \<open>
  The do-while loop of \<^verbatim>\<open>eeprom_wait_ready\<close>, which has no bound on its iterations. It
  is a partial function: \<open>None\<close> stands for a loop that never ends. The loop never
  writes \<^verbatim>\<open>dummy\<close>, so every probe of one call sends the same byte.
\<close>

partial_function (option) wait_ready_loop :: "u8 \<Rightarrow> world \<Rightarrow> world option" where
  "wait_ready_loop dummy s =
     (case i2c_write_blocking AT24C256_ADDRESS [dummy] False s of
        (ret, s1) \<Rightarrow>
          if ret < 0 then wait_ready_loop dummy (sleep_us 100 s1) else Some s1)"

declare wait_ready_loop.simps [code]

text \<open>
  \<^verbatim>\<open>eeprom_wait_ready\<close>: the call finds its own byte in the uninitialised \<^verbatim>\<open>dummy\<close> and
  runs the loop with it.
\<close>

definition eeprom_wait_ready :: "world \<Rightarrow> world option" where
  "eeprom_wait_ready s =
     wait_ready_loop (dummy_at s (wait_calls s)) (s\<lparr>wait_calls := Suc (wait_calls s)\<rparr>)"

text \<open>
  \<^verbatim>\<open>_eeprom_write_page_raw\<close>: the two address bytes, then \<open>len\<close> bytes of \<open>data\<close>; the
  result of the transfer is ignored. The C needs \<open>len \<le> PAGE_SIZE\<close> and \<open>len\<close> bytes
  behind \<open>data\<close>, which its one caller provides.
\<close>

definition eeprom_write_page_raw :: "u16 \<Rightarrow> u8 list \<Rightarrow> nat \<Rightarrow> world \<Rightarrow> world option" where
  "eeprom_write_page_raw mem_addr data len s =
     (let buf = [ucast (drop_bit 8 mem_addr AND 0xFF), ucast (mem_addr AND 0xFF)] @ take len data
      in eeprom_wait_ready
           (snd (i2c_write_blocking AT24C256_ADDRESS (take (len + 2) buf) False s)))"

text \<open>
  The loop of \<^verbatim>\<open>eeprom_write_buffer\<close>, with its variables \<open>addr\<close>, \<open>offset\<close> and
  \<open>remaining_len\<close>; \<open>addr\<close> is a \<^verbatim>\<open>uint16_t\<close> and wraps.
\<close>

function write_loop :: "u16 \<Rightarrow> u8 list \<Rightarrow> nat \<Rightarrow> nat \<Rightarrow> world \<Rightarrow> world option" where
  "write_loop addr data offset remaining_len s =
     (if remaining_len > 0 then
        (let space_in_page = PAGE_SIZE - unat addr mod PAGE_SIZE;
             chunk_size = (if remaining_len < space_in_page then remaining_len
                           else space_in_page)
         in case eeprom_write_page_raw addr (drop offset data) chunk_size s of
              None \<Rightarrow> None
            | Some s' \<Rightarrow>
                write_loop (addr + of_nat chunk_size) data (offset + chunk_size)
                  (remaining_len - chunk_size) s')
      else Some s)"
  by pat_completeness auto
termination
  by (relation "measure (\<lambda>(addr, data, offset, remaining_len, s). remaining_len)")
     (auto simp: PAGE_SIZE_def)

definition eeprom_write_buffer :: "u16 \<Rightarrow> u8 list \<Rightarrow> nat \<Rightarrow> world \<Rightarrow> world option" where
  "eeprom_write_buffer addr data len s = write_loop addr data 0 len s"

definition eeprom_read_buffer :: "u16 \<Rightarrow> u8 list \<Rightarrow> nat \<Rightarrow> world \<Rightarrow> u8 list \<times> world" where
  "eeprom_read_buffer addr buf len s =
     (let reg_addr = [ucast (drop_bit 8 addr AND 0xFF), ucast (addr AND 0xFF)];
          s1 = snd (i2c_write_blocking AT24C256_ADDRESS reg_addr True s);
          (ret, buf', s2) = i2c_read_blocking AT24C256_ADDRESS buf len False s1
      in (buf', s2))"

definition eeprom_write_byte :: "u16 \<Rightarrow> u8 \<Rightarrow> world \<Rightarrow> world option" where
  "eeprom_write_byte mem_addr data s =
     (let buf = [ucast (drop_bit 8 mem_addr AND 0xFF), ucast (mem_addr AND 0xFF), data]
      in eeprom_wait_ready (snd (i2c_write_blocking AT24C256_ADDRESS buf False s)))"

definition eeprom_read_byte :: "u16 \<Rightarrow> world \<Rightarrow> u8 \<times> world" where
  "eeprom_read_byte mem_addr s =
     (let reg_addr = [ucast (drop_bit 8 mem_addr AND 0xFF), ucast (mem_addr AND 0xFF)];
          s1 = snd (i2c_write_blocking AT24C256_ADDRESS reg_addr True s);
          (ret, rx, s2) = i2c_read_blocking AT24C256_ADDRESS [0] 1 False s1
      in (hd rx, s2))"

definition eeprom_update_byte :: "u16 \<Rightarrow> u8 \<Rightarrow> world \<Rightarrow> world option" where
  "eeprom_update_byte addr new_val s =
     (case eeprom_read_byte addr s of
        (old_val, s1) \<Rightarrow>
          if old_val \<noteq> new_val then eeprom_write_byte addr new_val s1 else Some s1)"

section \<open>The settings layer\<close>

text \<open>
  The object representation of \<^verbatim>\<open>SystemSettings\<close> on the little-endian target: the
  bytes that \<^verbatim>\<open>(uint8_t*)&current_settings\<close> points to. \<open>object_of_bytes\<close> is meant for
  the 40 bytes of an object, as the casts of the source are.
\<close>

definition le16 :: "u16 \<Rightarrow> u8 list" where
  "le16 w = [ucast w, ucast (drop_bit 8 w)]"

definition le32 :: "i32 \<Rightarrow> u8 list" where
  "le32 w = [ucast w, ucast (drop_bit 8 w), ucast (drop_bit 16 w), ucast (drop_bit 24 w)]"

definition of_le16 :: "u8 list \<Rightarrow> u16" where
  "of_le16 bs = ucast (bs ! 0) OR push_bit 8 (ucast (bs ! 1))"

definition of_le32 :: "u8 list \<Rightarrow> i32" where
  "of_le32 bs = ucast (bs ! 0) OR push_bit 8 (ucast (bs ! 1))
                OR push_bit 16 (ucast (bs ! 2)) OR push_bit 24 (ucast (bs ! 3))"

definition object_bytes :: "SystemSettings \<Rightarrow> u8 list" where
  "object_bytes r =
     le32 (motor_offset r) @ le16 (magic r) @ take 32 (wifi_ssid r @ replicate 32 0)
     @ [volume r, checksum r]"

definition object_of_bytes :: "u8 list \<Rightarrow> SystemSettings" where
  "object_of_bytes bs =
     \<lparr>motor_offset = of_le32 (take 4 bs), magic = of_le16 (take 2 (drop 4 bs)),
      wifi_ssid = take 32 (drop 6 bs), volume = bs ! 38, checksum = bs ! 39\<rparr>"

text \<open>\<^verbatim>\<open>calc_checksum\<close>: the for loop over \<open>i < sizeof(SystemSettings) - 1\<close>.\<close>

definition calc_checksum :: "SystemSettings \<Rightarrow> u8" where
  "calc_checksum r =
     fold (\<lambda>i sum. sum + object_bytes r ! i) [0..<sizeof_SystemSettings - 1] 0"

definition settings_save :: "world \<Rightarrow> world option" where
  "settings_save s =
     (let s1 = s\<lparr>current_settings :=
                  (current_settings s)\<lparr>checksum := calc_checksum (current_settings s)\<rparr>\<rparr>
      in eeprom_write_buffer SETTINGS_ADDR (object_bytes (current_settings s1))
           sizeof_SystemSettings s1)"

text \<open>\<^verbatim>\<open>strcpy\<close> of a literal: its characters and the terminating zero.\<close>

definition strcpy :: "u8 list \<Rightarrow> string \<Rightarrow> u8 list" where
  "strcpy dst src =
     map (\<lambda>c. of_nat (of_char c)) src @ [0] @ drop (length src + 1) dst"

definition settings_init :: "world \<Rightarrow> world option" where
  "settings_init s =
     (let (buf, s1) = eeprom_read_buffer SETTINGS_ADDR (object_bytes (current_settings s))
                        sizeof_SystemSettings s;
          s2 = s1\<lparr>current_settings := object_of_bytes buf\<rparr>;
          calced_sum = calc_checksum (current_settings s2)
      in if magic (current_settings s2) \<noteq> MAGIC_CODE
            \<or> checksum (current_settings s2) \<noteq> calced_sum
         then settings_save
                (s2\<lparr>current_settings :=
                      (current_settings s2)
                        \<lparr>magic := MAGIC_CODE,
                         wifi_ssid := strcpy (wifi_ssid (current_settings s2)) ''MyWifi'',
                         volume := 50,
                         motor_offset := 0\<rparr>\<rparr>)
         else Some s2)"

section \<open>Bus traffic in closed form\<close>

text \<open>
  The events the driver is expected to log: a probe of the ready barrier with its
  result, the whole barrier on a device that is busy for \<open>b\<close> microseconds (one refused
  probe per started backoff of 100 microseconds, then the acknowledged one), and a page
  write with its two address bytes.
\<close>

definition probe :: "u8 \<Rightarrow> int \<Rightarrow> bus_event" where
  "probe j r = BusWrite AT24C256_ADDRESS [j] False r"

definition ready_barrier :: "u8 \<Rightarrow> nat \<Rightarrow> bus_event list" where
  "ready_barrier j b = replicate ((b + 99) div 100) (probe j PICO_ERROR_GENERIC) @ [probe j 1]"

definition page_write_event :: "u16 \<Rightarrow> u8 list \<Rightarrow> bus_event" where
  "page_write_event a c =
     BusWrite AT24C256_ADDRESS
       ([ucast (drop_bit 8 a AND 0xFF), ucast (a AND 0xFF)] @ c) False (int (length c + 2))"

text \<open>
  The paging rule in the words of the specification: \<open>space = P - (offset mod P)\<close>,
  \<open>chunk = min(remaining, space)\<close>, one transaction per chunk, then offset and remaining
  advance by the chunk. The offset is the 16-bit one of the interface.
\<close>

function spec_page_segments :: "u16 \<Rightarrow> u8 list \<Rightarrow> (u16 \<times> u8 list) list" where
  "spec_page_segments offset remaining =
     (if remaining = [] then []
      else (offset, take (min (length remaining) (PAGE_SIZE - unat offset mod PAGE_SIZE)) remaining)
           # spec_page_segments
               (offset + of_nat (min (length remaining) (PAGE_SIZE - unat offset mod PAGE_SIZE)))
               (drop (min (length remaining) (PAGE_SIZE - unat offset mod PAGE_SIZE)) remaining))"
  by pat_completeness auto
termination
  by (relation "measure (\<lambda>(offset, remaining). length remaining)")
     (auto simp: PAGE_SIZE_def)

text \<open>Which logged events are page writes: a write of the address bytes and data.\<close>

fun is_page_write :: "bus_event \<Rightarrow> bool" where
  "is_page_write (BusWrite a src nostop r) = (length src > 2)"
| "is_page_write (BusRead a n nostop r) = False"

text \<open>The number of data bytes and the 16-bit offset a logged write carries.\<close>

fun event_data_len :: "bus_event \<Rightarrow> nat" where
  "event_data_len (BusWrite a src nostop r) = length src - 2"
| "event_data_len (BusRead a n nostop r) = 0"

fun event_offset :: "bus_event \<Rightarrow> nat" where
  "event_offset (BusWrite a (hi # lo # d) nostop r) = unat hi * 256 + unat lo"
| "event_offset e = 0"

text \<open>The events logged between two states.\<close>

definition new_events :: "world \<Rightarrow> world \<Rightarrow> bus_event list" where
  "new_events s s' = drop (length (trace s)) (trace s')"

text \<open>
  What a list of page segments does to the cells of a responsive device, and the events
  it leaves in the log: each page write followed by its ready barrier, where the barrier
  of the segment numbered \<open>i\<close> sends the byte \<open>junk i\<close>.
\<close>

definition segments_mem :: "(u16 \<times> u8 list) list \<Rightarrow> (nat \<Rightarrow> u8) \<Rightarrow> (nat \<Rightarrow> u8)" where
  "segments_mem segs m = fold (\<lambda>(a, c). page_store (unat a mod CAPACITY) c) segs m"

definition segments_trace ::
  "(nat \<Rightarrow> u8) \<Rightarrow> nat \<Rightarrow> nat \<Rightarrow> (u16 \<times> u8 list) list \<Rightarrow> bus_event list" where
  "segments_trace junk n k segs =
     concat (map (\<lambda>(i, a, c). page_write_event a c # ready_barrier (junk i) k)
               (List.enumerate n segs))"

text \<open>
  A concrete state for the examples: an erased device (every cell \<open>0xFF\<close>), ready, with
  the 5 ms write cycle the comments of main.c mention, an empty log, the
  zero-initialised global, and \<^verbatim>\<open>dummy\<close> holding \<open>0xF7\<close> and \<open>0\<close> in turn.
\<close>

definition blank_world :: world where
  "blank_world =
     \<lparr>mem = (\<lambda>_. 0xFF), ptr = 0, busy = 0, twr = enat 5000, trace = [],
      dummy_at = (\<lambda>n. if even n then 0xF7 else 0), wait_calls = 0,
      current_settings =
        \<lparr>motor_offset = 0, magic = 0, wifi_ssid = replicate 32 0, volume = 0,
         checksum = 0\<rparr>\<rparr>"

text \<open>The same device, but one that never finishes a write cycle.\<close>

definition stuck_world :: world where
  "stuck_world = blank_world\<lparr>twr := \<infinity>\<rparr>"

text \<open>And one that does not acknowledge at all.\<close>

definition absent_world :: world where
  "absent_world = blank_world\<lparr>busy := \<infinity>\<rparr>"

text \<open>The record that the cells at the settings address hold.\<close>

definition stored_settings :: "world \<Rightarrow> SystemSettings" where
  "stored_settings s = object_of_bytes (map (mem s) [0..<sizeof_SystemSettings])"

text \<open>
  Validity in the words of the specification, read off the cells of the device: the
  stored record is valid iff its magic marker equals the constant \<open>0xA55A\<close> (cells 4 and
  5, low byte first) and its checksum byte (cell 39) is the truncated 8-bit sum of the
  other bytes of the record (cells 0 to 38).
\<close>

definition spec_cells_valid :: "world \<Rightarrow> bool" where
  "spec_cells_valid s =
     (mem s 4 = 0x5A \<and> mem s 5 = 0xA5 \<and> mem s 39 = sum_list (map (mem s) [0..<39]))"

text \<open>A device that holds the defaults with their checksum at the settings address.\<close>

definition default_settings :: SystemSettings where
  "default_settings =
     \<lparr>motor_offset = 0, magic = MAGIC_CODE, wifi_ssid = strcpy (replicate 32 0) ''MyWifi'',
      volume = 50, checksum = 0x86\<rparr>"

definition formatted_world :: world where
  "formatted_world =
     blank_world\<lparr>mem := (\<lambda>j. if j < 40 then object_bytes default_settings ! j else 0xFF)\<rparr>"

text \<open>The same record with the right magic marker but a wrong checksum byte.\<close>

definition corrupt_world :: world where
  "corrupt_world = formatted_world\<lparr>mem := (mem formatted_world)(39 := 0)\<rparr>"

section \<open>Lemmas: words and the ready barrier\<close>

lemma and_ff_u16: "(a :: u16) AND 0xFF = take_bit 8 a"
  by (simp add: take_bit_eq_mask mask_eq_exp_minus_1)

lemma unat_lo_byte: "unat (ucast ((a :: u16) AND 0xFF) :: u8) = unat a mod 256"
  by (simp only: and_ff_u16 unsigned_ucast_eq unsigned_take_bit_eq) (simp add: take_bit_eq_mod)

lemma unat_u16_less: "unat (a :: u16) < 65536"
  using unsigned_less [of a, where ?'a = nat] by simp

lemma unat_hi_shift: "unat (drop_bit 8 (a :: u16)) = unat a div 256"
  by (simp only: unat_drop_bit_eq) (simp add: drop_bit_eq_div)

lemma wire_addr_enc:
  "wire_addr (ucast (drop_bit 8 a AND 0xFF)) (ucast ((a :: u16) AND 0xFF)) = unat a mod CAPACITY"
proof -
  have "unat a div 256 < 256" using unat_u16_less [of a] by simp
  then have "unat a div 256 mod 256 * 256 + unat a mod 256 = unat a" by simp
  then show ?thesis
    unfolding wire_addr_def unat_lo_byte unat_hi_shift by simp
qed

lemma wait_loop_now:
  "busy s = 0 \<Longrightarrow> wait_ready_loop j s = Some (s\<lparr>trace := trace s @ [probe j 1]\<rparr>)"
  by (subst wait_ready_loop.simps) (simp add: i2c_write_blocking_def log_event_def probe_def)

lemma cnt_step: "b \<noteq> 0 \<Longrightarrow> (b + 99) div 100 = Suc ((b - 100 + 99) div (100::nat))"
proof (cases "b < 100")
  case True
  assume "b \<noteq> 0"
  with True have "(b + 99) div 100 = 1" by arith
  with True show ?thesis by simp
next
  case False
  then have "b + 99 = (b - 100 + 99) + 100" by simp
  then have "(b + 99) div 100 = ((b - 100 + 99) + 100) div 100" by simp
  then show ?thesis by (simp only: div_add_self2)
qed

lemma wait_loop_step:
  "busy s \<noteq> 0 \<Longrightarrow>
   wait_ready_loop j s =
     wait_ready_loop j
       (s\<lparr>trace := trace s @ [probe j PICO_ERROR_GENERIC], busy := busy s - 100\<rparr>)"
  by (subst wait_ready_loop.simps)
     (simp add: i2c_write_blocking_def log_event_def sleep_us_def PICO_ERROR_GENERIC_def
        numeral_eq_enat probe_def)

lemma wait_loop_finite:
  "busy s = enat b \<Longrightarrow>
   wait_ready_loop j s =
     Some (s\<lparr>trace := trace s
               @ replicate ((b + 99) div 100) (probe j PICO_ERROR_GENERIC) @ [probe j 1],
             busy := 0\<rparr>)"
proof (induction b arbitrary: s rule: less_induct)
  case (less b)
  show ?case
  proof (cases "b = 0")
    case True
    with less.prems have "busy s = 0" by (simp add: zero_enat_def)
    then show ?thesis using True by (simp add: wait_loop_now)
  next
    case False
    let ?s' = "s\<lparr>trace := trace s @ [probe j PICO_ERROR_GENERIC], busy := busy s - 100\<rparr>"
    have b': "busy ?s' = enat (b - 100)" using less.prems
      by (simp add: numeral_eq_enat)
    have lt: "b - 100 < b" using False by simp
    have nz: "busy s \<noteq> 0" using less.prems False by (simp add: zero_enat_def)
    show ?thesis
      unfolding wait_loop_step [OF nz] less.IH [OF lt b'] cnt_step [OF False]
      by (simp add: replicate_append_same)
  qed
qed

lemma wait_ready_barrier:
  "busy s = enat b \<Longrightarrow>
   eeprom_wait_ready s =
     Some (s\<lparr>wait_calls := Suc (wait_calls s),
             trace := trace s @ ready_barrier (dummy_at s (wait_calls s)) b,
             busy := 0\<rparr>)"
  by (simp add: eeprom_wait_ready_def wait_loop_finite ready_barrier_def)

lemma wait_loop_Some_finite:
  assumes "wait_ready_loop j s = Some s'"
  shows "busy s \<noteq> \<infinity>"
proof (rule wait_ready_loop.raw_induct
         [where P = "\<lambda>_ s _. busy s \<noteq> \<infinity>" and dummy = j and s = s and y = s'])
  show "wait_ready_loop j s = Some s'" by fact
next
  fix f :: "u8 \<Rightarrow> world \<Rightarrow> world option" and d t t'
  assume IH: "\<And>e x y. f e x = Some y \<Longrightarrow> busy x \<noteq> \<infinity>"
    and body: "(case i2c_write_blocking AT24C256_ADDRESS [d] False t of
                  (ret, s1) \<Rightarrow> if ret < 0 then f d (sleep_us 100 s1) else Some s1) = Some t'"
  show "busy t \<noteq> \<infinity>"
  proof (cases "busy t = 0")
    case True
    then show ?thesis by simp
  next
    case False
    with body have "f d (sleep_us 100 (log_event (probe d PICO_ERROR_GENERIC) t)) = Some t'"
      by (simp add: i2c_write_blocking_def PICO_ERROR_GENERIC_def probe_def)
    from IH [OF this] have "busy t - enat 100 \<noteq> \<infinity>"
      by (simp add: sleep_us_def log_event_def)
    then show ?thesis by (cases "busy t") auto
  qed
qed

lemma wait_ready_inf: "busy s = \<infinity> \<Longrightarrow> eeprom_wait_ready s = None"
  using wait_loop_Some_finite [of "dummy_at s (wait_calls s)" "s\<lparr>wait_calls := Suc (wait_calls s)\<rparr>"]
  by (cases "eeprom_wait_ready s") (auto simp: eeprom_wait_ready_def)

section \<open>Lemmas: one page write and the write loop\<close>

declare write_loop.simps [simp del] spec_page_segments.simps [simp del]

lemma i2c_write_page_ready:
  "busy s = 0 \<Longrightarrow> d \<noteq> [] \<Longrightarrow>
   snd (i2c_write_blocking AT24C256_ADDRESS
          ([ucast (drop_bit 8 a AND 0xFF), ucast ((a :: u16) AND 0xFF)] @ d) False s) =
     s\<lparr>mem := page_store (unat a mod CAPACITY) d (mem s),
       ptr := page_end (unat a mod CAPACITY) d,
       busy := twr s,
       trace := trace s @ [page_write_event a d]\<rparr>"
  by (cases d)
     (simp_all add: i2c_write_blocking_def log_event_def page_write_event_def wire_addr_enc)

lemma write_page_raw_ready:
  assumes "busy s = 0" and "twr s = enat k" and "0 < len" and "len \<le> length data"
  shows "eeprom_write_page_raw a data len s =
     Some (s\<lparr>mem := page_store (unat a mod CAPACITY) (take len data) (mem s),
             ptr := page_end (unat a mod CAPACITY) (take len data),
             trace := trace s @ page_write_event a (take len data)
                        # ready_barrier (dummy_at s (wait_calls s)) k,
             wait_calls := Suc (wait_calls s)\<rparr>)"
proof -
  have ne: "take len data \<noteq> []" using assms by auto
  have tk: "take (len + 2) ([ucast (drop_bit 8 a AND 0xFF), ucast (a AND 0xFF)] @ take len data)
            = [ucast (drop_bit 8 a AND 0xFF), ucast (a AND 0xFF)] @ take len data"
    by simp
  show ?thesis
    unfolding eeprom_write_page_raw_def Let_def tk i2c_write_page_ready [OF assms(1) ne]
    using assms(1)
    by (subst wait_ready_barrier [where b = k]) (simp_all add: assms world.equality)
qed

lemma write_loop_done: "write_loop addr data offset 0 s = Some s"
  by (subst write_loop.simps) simp

lemma spec_page_segments_Nil: "spec_page_segments a [] = []"
  by (subst spec_page_segments.simps) simp

lemma chunk_size_min:
  "(if r < PAGE_SIZE - unat (a :: u16) mod PAGE_SIZE then r else PAGE_SIZE - unat a mod PAGE_SIZE)
   = min r (PAGE_SIZE - unat a mod PAGE_SIZE)"
  by (simp add: min_def)

lemma write_loop_ready:
  "busy s = 0 \<Longrightarrow> twr s = enat k \<Longrightarrow> offset + remaining_len \<le> length data \<Longrightarrow>
   \<exists>s'. write_loop addr data offset remaining_len s = Some s'
      \<and> busy s' = 0 \<and> twr s' = twr s \<and> dummy_at s' = dummy_at s
      \<and> wait_calls s'
          = wait_calls s + length (spec_page_segments addr (take remaining_len (drop offset data)))
      \<and> current_settings s' = current_settings s
      \<and> mem s' = segments_mem (spec_page_segments addr (take remaining_len (drop offset data))) (mem s)
      \<and> trace s' = trace s
           @ segments_trace (dummy_at s) (wait_calls s) k
               (spec_page_segments addr (take remaining_len (drop offset data)))"
proof (induction remaining_len arbitrary: addr offset s rule: less_induct)
  case (less r)
  show ?case
  proof (cases "r = 0")
    case True
    then show ?thesis using less.prems(1)
      by (simp add: write_loop_done spec_page_segments_Nil segments_mem_def segments_trace_def)
  next
    case False
    define c where "c = min r (PAGE_SIZE - unat addr mod PAGE_SIZE)"
    have cpos: "0 < c" and cle: "c \<le> r" using False by (simp_all add: c_def PAGE_SIZE_def)
    have clen: "c \<le> length (drop offset data)" using less.prems(3) cle by simp
    define s1 where "s1 = s\<lparr>mem := page_store (unat addr mod CAPACITY) (take c (drop offset data)) (mem s),
             ptr := page_end (unat addr mod CAPACITY) (take c (drop offset data)),
             trace := trace s @ page_write_event addr (take c (drop offset data))
                        # ready_barrier (dummy_at s (wait_calls s)) k,
             wait_calls := Suc (wait_calls s)\<rparr>"
    have raw: "eeprom_write_page_raw addr (drop offset data) c s = Some s1"
      unfolding s1_def by (rule write_page_raw_ready [OF less.prems(1,2) cpos clen])
    have unf: "write_loop addr data offset r s
               = write_loop (addr + of_nat c) data (offset + c) (r - c) s1"
      using False raw
      by (subst write_loop.simps) (simp add: chunk_size_min Let_def flip: c_def)
    have s1_busy: "busy s1 = 0" and s1_twr: "twr s1 = enat k"
      using less.prems by (simp_all add: s1_def)
    have bound: "(offset + c) + (r - c) \<le> length data" using less.prems(3) cle by simp
    have lt: "r - c < r" using cpos cle by simp
    from less.IH [OF lt s1_busy s1_twr bound, of "addr + of_nat c"]
    obtain s' where IH: "write_loop (addr + of_nat c) data (offset + c) (r - c) s1 = Some s'"
      "busy s' = 0" "twr s' = twr s1" "dummy_at s' = dummy_at s1"
      "wait_calls s' = wait_calls s1 + length (spec_page_segments (addr + of_nat c)
                   (take (r - c) (drop (offset + c) data)))"
      "current_settings s' = current_settings s1"
      "mem s' = segments_mem (spec_page_segments (addr + of_nat c)
                   (take (r - c) (drop (offset + c) data))) (mem s1)"
      "trace s' = trace s1 @ segments_trace (dummy_at s1) (wait_calls s1) k
                   (spec_page_segments (addr + of_nat c) (take (r - c) (drop (offset + c) data)))"
      by blast
    let ?rem = "take r (drop offset data)"
    have lrem: "length ?rem = r" using less.prems(3) by simp
    have ne: "?rem \<noteq> []" using lrem False by auto
    have tk: "take c ?rem = take c (drop offset data)" using cle by (simp add: min_def)
    have dr: "drop c ?rem = take (r - c) (drop (offset + c) data)"
      by (simp add: drop_take add.commute)
    have segs: "spec_page_segments addr ?rem
                = (addr, take c (drop offset data))
                  # spec_page_segments (addr + of_nat c) (take (r - c) (drop (offset + c) data))"
      using ne by (subst spec_page_segments.simps) (simp only: lrem tk dr flip: c_def, simp)
    show ?thesis
      unfolding unf segs using IH
      by (simp add: s1_def segments_mem_def segments_trace_def)
  qed
qed

section \<open>Reads\<close>

lemma read_buffer_ready:
  "busy s = 0 \<Longrightarrow>
   eeprom_read_buffer addr buf len s =
     (map (\<lambda>i. mem s ((unat addr mod CAPACITY + i) mod CAPACITY)) [0..<len] @ drop len buf,
      s\<lparr>ptr := unat addr mod CAPACITY,
        trace := trace s
          @ [BusWrite AT24C256_ADDRESS
               [ucast (drop_bit 8 addr AND 0xFF), ucast (addr AND 0xFF)] True 2],
        ptr := (unat addr mod CAPACITY + len) mod CAPACITY,
        trace := trace s
          @ [BusWrite AT24C256_ADDRESS
               [ucast (drop_bit 8 addr AND 0xFF), ucast (addr AND 0xFF)] True 2,
             BusRead AT24C256_ADDRESS len False (int len)]\<rparr>)"
  by (simp add: eeprom_read_buffer_def i2c_write_blocking_def i2c_read_blocking_def
      log_event_def device_read_def wire_addr_enc Let_def)

text \<open>
  C4: a read is one dummy write of the two address bytes, high byte first, with the bus
  held (\<^verbatim>\<open>nostop = true\<close>), followed at once by one read transaction of \<open>len\<close> bytes,
  whatever the offset and the length: nothing is split at a page boundary.
\<close>

theorem read_buffer_two_transactions:
  "new_events s (snd (eeprom_read_buffer addr buf len s))
     = [BusWrite AT24C256_ADDRESS [ucast (drop_bit 8 addr AND 0xFF), ucast (addr AND 0xFF)] True
          (if busy s = 0 then 2 else PICO_ERROR_GENERIC),
        BusRead AT24C256_ADDRESS len False (if busy s = 0 then int len else PICO_ERROR_GENERIC)]
   \<and> unat (ucast (drop_bit 8 addr AND 0xFF) :: u8) * 256 + unat (ucast (addr AND 0xFF) :: u8)
       = unat addr"
proof -
  have "unat addr div 256 < 256" using unat_u16_less [of addr] by simp
  then have enc: "unat addr div 256 mod 256 * 256 + unat addr mod 256 = unat addr" by simp
  have ev: "new_events s (snd (eeprom_read_buffer addr buf len s))
     = [BusWrite AT24C256_ADDRESS [ucast (drop_bit 8 addr AND 0xFF), ucast (addr AND 0xFF)] True
          (if busy s = 0 then 2 else PICO_ERROR_GENERIC),
        BusRead AT24C256_ADDRESS len False (if busy s = 0 then int len else PICO_ERROR_GENERIC)]"
    by (simp add: eeprom_read_buffer_def i2c_write_blocking_def i2c_read_blocking_def
        log_event_def new_events_def Let_def)
  show ?thesis using ev enc
    by (simp only: unat_lo_byte unat_hi_shift)
qed

theorem read_buffer_two_transactions_witness:
  "new_events blank_world (snd (eeprom_read_buffer 0x1234 [0, 0, 0] 3 blank_world))
     = [BusWrite 0x50 [0x12, 0x34] True 2, BusRead 0x50 3 False 3]"
  using read_buffer_two_transactions [of blank_world "0x1234" "[0, 0, 0]" 3]
  by (simp add: blank_world_def AT24C256_ADDRESS_def)

section \<open>Single bytes\<close>

lemma write_page_raw_one:
  "eeprom_write_page_raw addr [v] (Suc 0) s = eeprom_write_byte addr v s"
  by (simp add: eeprom_write_page_raw_def eeprom_write_byte_def)

lemma write_loop_one: "write_loop addr [v] 0 (Suc 0) s = eeprom_write_byte addr v s"
proof -
  have c: "min (Suc 0) (PAGE_SIZE - unat addr mod PAGE_SIZE) = Suc 0"
    by (simp add: PAGE_SIZE_def)
  have "write_loop addr [v] 0 (Suc 0) s
        = (case eeprom_write_page_raw addr [v] (Suc 0) s of
             None \<Rightarrow> None
           | Some s' \<Rightarrow> write_loop (addr + of_nat (Suc 0)) [v] (Suc 0) 0 s')"
    by (subst write_loop.simps) (simp only: chunk_size_min c Let_def, simp cong: option.case_cong)
  then show ?thesis
    by (simp add: write_page_raw_one write_loop_done split: option.split)
qed

lemma read_byte_as_buffer:
  "(hd (fst (eeprom_read_buffer addr [0] (Suc 0) s)), snd (eeprom_read_buffer addr [0] (Suc 0) s))
   = eeprom_read_byte addr s"
  by (simp add: eeprom_read_byte_def eeprom_read_buffer_def Let_def split: prod.split)

lemma read_byte_ready:
  "busy s = 0 \<Longrightarrow>
   eeprom_read_byte addr s =
     (mem s (unat addr mod CAPACITY),
      snd (eeprom_read_buffer addr [x] (Suc 0) s))"
  by (simp add: eeprom_read_byte_def eeprom_read_buffer_def i2c_write_blocking_def
      i2c_read_blocking_def log_event_def device_read_def wire_addr_enc Let_def CAPACITY_def)

text \<open>
  C10: the single-byte operations are the one-byte cases of the buffer operations.
  \<^verbatim>\<open>eeprom_write_byte(addr, v)\<close> and \<^verbatim>\<open>eeprom_write_buffer(addr, [v], 1)\<close> give the same
  result from every state: the same log of bus transactions, ready barrier included, and
  the same device, or neither returns. \<^verbatim>\<open>eeprom_read_byte(addr)\<close> returns the byte that a
  one-byte \<^verbatim>\<open>eeprom_read_buffer\<close> puts into a zeroed buffer and leaves the same state; on
  a device that answers this holds for any buffer content.
\<close>

theorem single_byte_wrappers:
  "eeprom_write_byte addr v s = eeprom_write_buffer addr [v] 1 s
   \<and> eeprom_read_byte addr s
       = (hd (fst (eeprom_read_buffer addr [0] 1 s)), snd (eeprom_read_buffer addr [0] 1 s))
   \<and> (busy s = 0 \<longrightarrow>
        eeprom_read_byte addr s
        = (hd (fst (eeprom_read_buffer addr [x] 1 s)), snd (eeprom_read_buffer addr [x] 1 s)))"
proof -
  have "busy s = 0 \<Longrightarrow>
        hd (fst (eeprom_read_buffer addr [x] (Suc 0) s)) = mem s (unat addr mod CAPACITY)"
    by (simp add: read_buffer_ready CAPACITY_def)
  then show ?thesis
    by (simp add: eeprom_write_buffer_def write_loop_one read_byte_as_buffer
        read_byte_ready [where x = x])
qed

theorem single_byte_wrappers_witness:
  "busy blank_world = 0
   \<and> eeprom_write_byte 0x28 0xAB blank_world = eeprom_write_buffer 0x28 [0xAB] 1 blank_world
   \<and> eeprom_read_byte 0x28 blank_world
       = (hd (fst (eeprom_read_buffer 0x28 [0x77] 1 blank_world)),
          snd (eeprom_read_buffer 0x28 [0x77] 1 blank_world))"
proof -
  have b: "busy blank_world = 0" by (simp add: blank_world_def)
  show ?thesis using single_byte_wrappers [of "0x28" "0xAB" blank_world "0x77"] b by blast
qed

section \<open>Paged writes\<close>

lemma spec_page_segments_Cons:
  "remaining \<noteq> [] \<Longrightarrow>
   spec_page_segments offset remaining =
     (offset, take (min (length remaining) (PAGE_SIZE - unat offset mod PAGE_SIZE)) remaining)
     # spec_page_segments
         (offset + of_nat (min (length remaining) (PAGE_SIZE - unat offset mod PAGE_SIZE)))
         (drop (min (length remaining) (PAGE_SIZE - unat offset mod PAGE_SIZE)) remaining)"
  by (subst spec_page_segments.simps) simp

lemma spec_page_segments_bound:
  "(a, c) \<in> set (spec_page_segments offset remaining) \<Longrightarrow>
   c \<noteq> [] \<and> length c \<le> PAGE_SIZE - unat a mod PAGE_SIZE"
proof (induction offset remaining rule: spec_page_segments.induct)
  case (1 offset remaining)
  show ?case
  proof (cases "remaining = []")
    case True
    with "1.prems" show ?thesis by (simp add: spec_page_segments_Nil)
  next
    case False
    from "1.prems" have "(a, c) = (offset, take (min (length remaining) (PAGE_SIZE - unat offset mod PAGE_SIZE)) remaining)
      \<or> (a, c) \<in> set (spec_page_segments
         (offset + of_nat (min (length remaining) (PAGE_SIZE - unat offset mod PAGE_SIZE)))
         (drop (min (length remaining) (PAGE_SIZE - unat offset mod PAGE_SIZE)) remaining))"
      by (simp add: spec_page_segments_Cons [OF False])
    then show ?thesis
    proof
      assume "(a, c) = (offset, take (min (length remaining) (PAGE_SIZE - unat offset mod PAGE_SIZE)) remaining)"
      then show ?thesis using False by (auto simp: PAGE_SIZE_def)
    next
      assume "(a, c) \<in> set (spec_page_segments
         (offset + of_nat (min (length remaining) (PAGE_SIZE - unat offset mod PAGE_SIZE)))
         (drop (min (length remaining) (PAGE_SIZE - unat offset mod PAGE_SIZE)) remaining))"
      then show ?thesis by (rule "1.IH" [OF False])
    qed
  qed
qed

lemma filter_ready_barrier: "filter is_page_write (ready_barrier j k) = []"
  by (simp add: ready_barrier_def probe_def)

lemma is_page_write_event: "is_page_write (page_write_event a c) = (c \<noteq> [])"
  by (simp add: page_write_event_def)

lemma filter_segments_trace:
  "\<forall>p \<in> set segs. snd p \<noteq> [] \<Longrightarrow>
   filter is_page_write (segments_trace junk n k segs)
   = map (\<lambda>(a, c). page_write_event a c) segs"
  by (induction segs arbitrary: n)
     (auto simp: segments_trace_def filter_ready_barrier is_page_write_event)

lemma event_of_page_write:
  "event_data_len (page_write_event a c) = length c"
  "event_offset (page_write_event a c) = unat a"
proof -
  have "unat a div 256 < 256" using unat_u16_less [of a] by simp
  then have enc: "unat a div 256 mod 256 * 256 + unat a mod 256 = unat a" by simp
  show "event_data_len (page_write_event a c) = length c"
    by (simp add: page_write_event_def)
  show "event_offset (page_write_event a c) = unat a"
    unfolding page_write_event_def using enc
    by (simp only: append_Cons append_Nil event_offset.simps unat_lo_byte unat_hi_shift)
qed

lemma write_buffer_ready:
  assumes "busy s = 0" and "twr s = enat k"
  shows "\<exists>s'. eeprom_write_buffer addr data (length data) s = Some s'
      \<and> busy s' = 0 \<and> twr s' = twr s \<and> dummy_at s' = dummy_at s
      \<and> wait_calls s' = wait_calls s + length (spec_page_segments addr data)
      \<and> current_settings s' = current_settings s
      \<and> mem s' = segments_mem (spec_page_segments addr data) (mem s)
      \<and> new_events s s' = segments_trace (dummy_at s) (wait_calls s) k (spec_page_segments addr data)
      \<and> trace s' = trace s @ segments_trace (dummy_at s) (wait_calls s) k (spec_page_segments addr data)"
  using write_loop_ready [OF assms, of 0 "length data" data addr]
  by (auto simp: eeprom_write_buffer_def new_events_def)


lemma filter_page_segments_trace:
  "filter is_page_write (segments_trace junk n k (spec_page_segments addr data))
   = map (\<lambda>(a, c). page_write_event a c) (spec_page_segments addr data)"
  by (rule filter_segments_trace) (auto dest: spec_page_segments_bound)

lemma spec_page_segments_scenario:
  "spec_page_segments 60 [1, 2, 3, 4, 5, 6] = [(60, [1, 2, 3, 4]), (64, [5, 6])]"
  by (simp add: spec_page_segments_Cons spec_page_segments_Nil PAGE_SIZE_def)

text \<open>
  C3: on a device that answers, \<^verbatim>\<open>eeprom_write_buffer\<close> returns, and the page writes it
  has logged are those of the paging rule \<open>chunk = min(remaining, P - (offset mod P))\<close>,
  one transaction per chunk, in order; so no page write carries more than
  \<open>P - (offset mod P)\<close> data bytes for its own offset, with \<open>P = 64\<close>. Writing
  \<open>[1,2,3,4,5,6]\<close> at offset 60 gives exactly the two page writes
  \<open>(60, [1,2,3,4])\<close> and \<open>(64, [5,6])\<close>.
\<close>

theorem write_buffer_paged:
  assumes "busy s = 0" and "twr s = enat k"
  shows "(\<exists>s'. eeprom_write_buffer addr data (length data) s = Some s'
            \<and> filter is_page_write (new_events s s')
                = map (\<lambda>(a, c). page_write_event a c) (spec_page_segments addr data)
            \<and> (\<forall>e \<in> set (new_events s s'). is_page_write e \<longrightarrow>
                   event_data_len e \<le> PAGE_SIZE - event_offset e mod PAGE_SIZE))
       \<and> (\<exists>s'. eeprom_write_buffer 60 [1, 2, 3, 4, 5, 6] 6 s = Some s'
            \<and> filter is_page_write (new_events s s')
                = [BusWrite AT24C256_ADDRESS [0, 60, 1, 2, 3, 4] False 6,
                   BusWrite AT24C256_ADDRESS [0, 64, 5, 6] False 4])"
proof
  from write_buffer_ready [OF assms, of addr data]
  obtain s' where w: "eeprom_write_buffer addr data (length data) s = Some s'"
    and ev: "new_events s s' = segments_trace (dummy_at s) (wait_calls s) k (spec_page_segments addr data)"
    by blast
  have flt: "filter is_page_write (new_events s s')
             = map (\<lambda>(a, c). page_write_event a c) (spec_page_segments addr data)"
    by (simp add: ev filter_page_segments_trace)
  have bnd: "event_data_len e \<le> PAGE_SIZE - event_offset e mod PAGE_SIZE"
    if "e \<in> set (new_events s s')" and "is_page_write e" for e
  proof -
    from that have "e \<in> set (filter is_page_write (new_events s s'))" by simp
    then obtain a c where "(a, c) \<in> set (spec_page_segments addr data)" and "e = page_write_event a c"
      unfolding flt by auto
    then show ?thesis using spec_page_segments_bound [of a c addr data]
      by (simp add: event_of_page_write)
  qed
  show "\<exists>s'. eeprom_write_buffer addr data (length data) s = Some s'
            \<and> filter is_page_write (new_events s s')
                = map (\<lambda>(a, c). page_write_event a c) (spec_page_segments addr data)
            \<and> (\<forall>e \<in> set (new_events s s'). is_page_write e \<longrightarrow>
                   event_data_len e \<le> PAGE_SIZE - event_offset e mod PAGE_SIZE)"
    using w flt bnd by blast
next
  have len: "length [1, 2, 3, 4, 5, 6 :: u8] = 6" by simp
  from write_buffer_ready [OF assms, of 60 "[1, 2, 3, 4, 5, 6]", unfolded len]
  obtain s' where w: "eeprom_write_buffer 60 [1, 2, 3, 4, 5, 6] 6 s = Some s'"
    and ev: "new_events s s'
             = segments_trace (dummy_at s) (wait_calls s) k (spec_page_segments 60 [1, 2, 3, 4, 5, 6])"
    by blast
  have "filter is_page_write (new_events s s')
        = [BusWrite AT24C256_ADDRESS [0, 60, 1, 2, 3, 4] False 6,
           BusWrite AT24C256_ADDRESS [0, 64, 5, 6] False 4]"
    unfolding ev filter_page_segments_trace
    by (simp add: spec_page_segments_scenario page_write_event_def)
  with w show "\<exists>s'. eeprom_write_buffer 60 [1, 2, 3, 4, 5, 6] 6 s = Some s'
            \<and> filter is_page_write (new_events s s')
                = [BusWrite AT24C256_ADDRESS [0, 60, 1, 2, 3, 4] False 6,
                   BusWrite AT24C256_ADDRESS [0, 64, 5, 6] False 4]"
    by blast
qed

theorem write_buffer_paged_witness:
  "busy blank_world = 0 \<and> twr blank_world = enat 5000
   \<and> (\<exists>s'. eeprom_write_buffer 62 [7, 8, 9, 10, 11] 5 blank_world = Some s'
          \<and> filter is_page_write (new_events blank_world s')
              = [BusWrite AT24C256_ADDRESS [0, 62, 7, 8] False 4,
                 BusWrite AT24C256_ADDRESS [0, 64, 9, 10, 11] False 5])"
proof -
  have b: "busy blank_world = 0" and k: "twr blank_world = enat 5000"
    by (simp_all add: blank_world_def)
  have segs: "spec_page_segments 62 [7, 8, 9, 10, 11] = [(62, [7, 8]), (64, [9, 10, 11])]"
    by (simp add: spec_page_segments_Cons spec_page_segments_Nil PAGE_SIZE_def)
  have len: "length [7, 8, 9, 10, 11 :: u8] = 5" by simp
  have evs: "map (\<lambda>(a, c). page_write_event a c) (spec_page_segments 62 [7, 8, 9, 10, 11])
             = [BusWrite AT24C256_ADDRESS [0, 62, 7, 8] False 4,
                BusWrite AT24C256_ADDRESS [0, 64, 9, 10, 11] False 5]"
    by (simp add: segs page_write_event_def)
  show ?thesis
    using write_buffer_paged [OF b k, of 62 "[7, 8, 9, 10, 11]", unfolded len evs] b k
    by blast
qed

section \<open>Round trip\<close>

lemma page_next_inside:
  "a mod PAGE_SIZE + 1 < PAGE_SIZE \<Longrightarrow> page_next a = a + 1"
proof -
  assume h: "a mod PAGE_SIZE + 1 < PAGE_SIZE"
  then have "(a + 1) mod PAGE_SIZE = a mod PAGE_SIZE + 1"
    by (simp add: PAGE_SIZE_def mod_Suc)
  then have "page_next a = a div PAGE_SIZE * PAGE_SIZE + a mod PAGE_SIZE + 1"
    by (simp add: page_next_def)
  then show ?thesis by simp
qed

lemma page_store_inside:
  "a mod PAGE_SIZE + length bs \<le> PAGE_SIZE \<Longrightarrow>
   page_store a bs m j = (if a \<le> j \<and> j < a + length bs then bs ! (j - a) else m j)"
proof (induction bs arbitrary: a m)
  case Nil
  then show ?case by auto
next
  case (Cons b bs)
  show ?case
  proof (cases "bs = []")
    case True
    then show ?thesis by auto
  next
    case False
    then have "0 < length bs" by simp
    with Cons.prems have inside: "a mod PAGE_SIZE + 1 < PAGE_SIZE" by (cases bs) simp_all
    then have nx: "page_next a = a + 1" by (rule page_next_inside)
    have "(a + 1) mod PAGE_SIZE = a mod PAGE_SIZE + 1" using inside
      by (simp add: PAGE_SIZE_def mod_Suc)
    with Cons.prems have "(a + 1) mod PAGE_SIZE + length bs \<le> PAGE_SIZE" by simp
    from Cons.IH [OF this] show ?thesis
      by (auto simp: nx nth_Cons')
  qed
qed


lemma segments_mem_Cons:
  "segments_mem ((a, c) # segs) m = segments_mem segs (page_store (unat a mod CAPACITY) c m)"
  by (simp add: segments_mem_def)

lemma segments_mem_Nil: "segments_mem [] m = m"
  by (simp add: segments_mem_def)

lemma segments_mem_in_range:
  "unat offset + length remaining \<le> CAPACITY \<Longrightarrow>
   segments_mem (spec_page_segments offset remaining) m j =
     (if unat offset \<le> j \<and> j < unat offset + length remaining
      then remaining ! (j - unat offset) else m j)"
proof (induction offset remaining arbitrary: m rule: spec_page_segments.induct)
  case (1 offset remaining)
  show ?case
  proof (cases "remaining = []")
    case True
    then show ?thesis by (auto simp: spec_page_segments_Nil segments_mem_Nil)
  next
    case False
    define c where "c = min (length remaining) (PAGE_SIZE - unat offset mod PAGE_SIZE)"
    have cpos: "0 < c" and cle: "c \<le> length remaining"
      and cpage: "unat offset mod PAGE_SIZE + c \<le> PAGE_SIZE"
      using False by (simp_all add: c_def PAGE_SIZE_def)
    have lt: "unat offset < CAPACITY" using "1.prems" False
      by (cases remaining) simp_all
    have small: "unat offset + c < 65536" using "1.prems" cle by (simp add: CAPACITY_def)
    have nx: "unat (offset + of_nat c) = unat offset + c"
      using small by (simp add: unat_word_ariths unat_of_nat)
    have bound: "unat (offset + of_nat c) + length (drop c remaining) \<le> CAPACITY"
      using "1.prems" cle by (simp add: nx)
    have first: "page_store (unat offset) (take c remaining) m i =
          (if unat offset \<le> i \<and> i < unat offset + c then remaining ! (i - unat offset) else m i)"
      for i
      using page_store_inside [of "unat offset" "take c remaining" m i] cpage cle
      by (auto simp: min_def)
    have "segments_mem (spec_page_segments offset remaining) m j
          = segments_mem (spec_page_segments (offset + of_nat c) (drop c remaining))
              (page_store (unat offset) (take c remaining) m) j"
      using lt by (simp add: spec_page_segments_Cons [OF False] segments_mem_Cons flip: c_def)
    also have "\<dots> = (if unat offset + c \<le> j \<and> j < unat offset + c + length (drop c remaining)
                     then drop c remaining ! (j - (unat offset + c))
                     else page_store (unat offset) (take c remaining) m j)"
      using "1.IH" [OF False bound [unfolded c_def], folded c_def] by (simp add: nx)
    also have "\<dots> = (if unat offset \<le> j \<and> j < unat offset + length remaining
                     then remaining ! (j - unat offset) else m j)"
      using cle by (auto simp: first)
    finally show ?thesis .
  qed
qed


text \<open>
  C1: for every offset and data with \<open>offset + length \<le> CAPACITY\<close>, on a device that
  answers, \<^verbatim>\<open>eeprom_write_buffer(offset, data, length)\<close> returns and a following
  \<^verbatim>\<open>eeprom_read_buffer(offset, buf, length)\<close> fills the first \<open>length\<close> bytes of
  \<open>buf\<close> with \<open>data\<close> (the rest of \<open>buf\<close> is untouched).
\<close>

theorem write_read_round_trip:
  assumes "busy s = 0" and "twr s = enat k" and "unat offset + length data \<le> CAPACITY"
  shows "\<exists>s'. eeprom_write_buffer offset data (length data) s = Some s'
           \<and> fst (eeprom_read_buffer offset buf (length data) s')
               = data @ drop (length data) buf"
proof -
  from write_buffer_ready [OF assms(1,2), of offset data]
  obtain s' where w: "eeprom_write_buffer offset data (length data) s = Some s'"
    and b: "busy s' = 0"
    and m: "mem s' = segments_mem (spec_page_segments offset data) (mem s)"
    by blast
  have cell: "mem s' ((unat offset mod CAPACITY + i) mod CAPACITY) = data ! i"
    if "i < length data" for i
  proof -
    from that assms(3) have "unat offset + i < CAPACITY" by simp
    then have "(unat offset mod CAPACITY + i) mod CAPACITY = unat offset + i" by simp
    then show ?thesis using that
      by (simp add: m segments_mem_in_range [OF assms(3)])
  qed
  have "map (\<lambda>i. mem s' ((unat offset mod CAPACITY + i) mod CAPACITY)) [0..<length data] = data"
    by (rule nth_equalityI) (simp_all add: cell)
  then have "fst (eeprom_read_buffer offset buf (length data) s') = data @ drop (length data) buf"
    by (simp add: read_buffer_ready [OF b])
  with w show ?thesis by blast
qed

theorem write_read_round_trip_witness:
  "busy blank_world = 0 \<and> twr blank_world = enat 5000
   \<and> unat (0x7FFD :: u16) + length [1, 2, 3 :: u8] \<le> CAPACITY
   \<and> (\<exists>s'. eeprom_write_buffer 0x7FFD [1, 2, 3] 3 blank_world = Some s'
          \<and> fst (eeprom_read_buffer 0x7FFD [0, 0, 0] 3 s') = [1, 2, 3])"
proof -
  have b: "busy blank_world = 0" and k: "twr blank_world = enat 5000"
    by (simp_all add: blank_world_def)
  have r: "unat (0x7FFD :: u16) + length [1, 2, 3 :: u8] \<le> CAPACITY"
    by (simp add: CAPACITY_def)
  have len: "length [1, 2, 3 :: u8] = 3" by simp
  have rest: "[1, 2, 3 :: u8] @ drop 3 [0, 0, 0] = [1, 2, 3]" by simp
  show ?thesis
    using write_read_round_trip [OF b k r, of "[0, 0, 0]", unfolded len rest] b k r
    by blast
qed

section \<open>Requests beyond the capacity\<close>

lemma the_write_buffer:
  assumes "\<exists>s'. eeprom_write_buffer addr data n s = Some s' \<and> P s'"
  shows "eeprom_write_buffer addr data n s \<noteq> None \<and> P (the (eeprom_write_buffer addr data n s))"
  using assms by auto

lemma spec_page_segments_wrap:
  "spec_page_segments 0x7FFF [1, 2] = [(0x7FFF, [1]), (0x8000, [2])]"
  by (simp add: spec_page_segments_Cons spec_page_segments_Nil PAGE_SIZE_def)

text \<open>
  C2 as stated fails: a request that ends beyond the capacity is not rejected. Reading
  2 bytes at offset \<open>0x7FFF\<close> issues both bus transactions, and writing \<open>[1, 2]\<close> there
  returns normally after two page writes, the first of which has stored its byte.
\<close>

theorem out_of_range_counterexample:
  "CAPACITY < unat (0x7FFF :: u16) + 2
   \<and> new_events blank_world (snd (eeprom_read_buffer 0x7FFF [0, 0] 2 blank_world))
       = [BusWrite AT24C256_ADDRESS [0x7F, 0xFF] True 2, BusRead AT24C256_ADDRESS 2 False 2]
   \<and> eeprom_write_buffer 0x7FFF [1, 2] 2 blank_world \<noteq> None
   \<and> filter is_page_write
         (new_events blank_world (the (eeprom_write_buffer 0x7FFF [1, 2] 2 blank_world)))
       = [BusWrite AT24C256_ADDRESS [0x7F, 0xFF, 1] False 3,
          BusWrite AT24C256_ADDRESS [0x80, 0x00, 2] False 3]
   \<and> mem (the (eeprom_write_buffer 0x7FFF [1, 2] 2 blank_world)) 0x7FFF = 1"
proof -
  have b: "busy blank_world = 0" and k: "twr blank_world = enat 5000"
    by (simp_all add: blank_world_def)
  have len: "length [1, 2 :: u8] = 2" by simp
  have rd: "new_events blank_world (snd (eeprom_read_buffer 0x7FFF [0, 0] 2 blank_world))
       = [BusWrite AT24C256_ADDRESS [0x7F, 0xFF] True 2, BusRead AT24C256_ADDRESS 2 False 2]"
    by (simp add: read_buffer_ready [OF b] new_events_def)
  from write_buffer_ready [OF b k, of "0x7FFF" "[1, 2]", unfolded len]
  have "\<exists>s'. eeprom_write_buffer 0x7FFF [1, 2] 2 blank_world = Some s'
        \<and> (mem s' = segments_mem (spec_page_segments 0x7FFF [1, 2]) (mem blank_world)
           \<and> new_events blank_world s'
               = segments_trace (dummy_at blank_world) (wait_calls blank_world) 5000 (spec_page_segments 0x7FFF [1, 2]))"
    by blast
  from the_write_buffer [OF this]
  have ne: "eeprom_write_buffer 0x7FFF [1, 2] 2 blank_world \<noteq> None"
    and m: "mem (the (eeprom_write_buffer 0x7FFF [1, 2] 2 blank_world))
            = segments_mem (spec_page_segments 0x7FFF [1, 2]) (mem blank_world)"
    and ev: "new_events blank_world (the (eeprom_write_buffer 0x7FFF [1, 2] 2 blank_world))
             = segments_trace (dummy_at blank_world) (wait_calls blank_world) 5000 (spec_page_segments 0x7FFF [1, 2])"
    by blast+
  have pw: "filter is_page_write
         (new_events blank_world (the (eeprom_write_buffer 0x7FFF [1, 2] 2 blank_world)))
       = [BusWrite AT24C256_ADDRESS [0x7F, 0xFF, 1] False 3,
          BusWrite AT24C256_ADDRESS [0x80, 0x00, 2] False 3]"
    unfolding ev filter_page_segments_trace
    by (simp add: spec_page_segments_wrap page_write_event_def)
  have cell: "mem (the (eeprom_write_buffer 0x7FFF [1, 2] 2 blank_world)) 0x7FFF = 1"
    unfolding m spec_page_segments_wrap
    by (simp add: segments_mem_def CAPACITY_def)
  show ?thesis using rd ne pw cell by (simp add: CAPACITY_def)
qed


text \<open>
  C2 as amended: neither operation checks the range or reports an error. For every
  offset and length with \<open>offset + length > CAPACITY\<close>, the read still issues its
  dummy address write and one read transaction of \<open>length\<close> bytes, and the write, on a
  device that answers, still returns after the page writes of the paging rule, the first
  of them at the requested offset.
\<close>

theorem out_of_range_unchecked:
  assumes "busy s = 0" and "twr s = enat k" and "CAPACITY < unat addr + length data"
  shows "new_events s (snd (eeprom_read_buffer addr buf (length data) s))
           = [BusWrite AT24C256_ADDRESS
                [ucast (drop_bit 8 addr AND 0xFF), ucast (addr AND 0xFF)] True 2,
              BusRead AT24C256_ADDRESS (length data) False (int (length data))]
       \<and> (\<exists>s'. eeprom_write_buffer addr data (length data) s = Some s'
              \<and> filter is_page_write (new_events s s')
                  = map (\<lambda>(a, c). page_write_event a c) (spec_page_segments addr data)
              \<and> (data \<noteq> [] \<longrightarrow>
                   hd (new_events s s')
                   = page_write_event addr
                       (take (min (length data) (PAGE_SIZE - unat addr mod PAGE_SIZE)) data)))"
proof
  show "new_events s (snd (eeprom_read_buffer addr buf (length data) s))
           = [BusWrite AT24C256_ADDRESS
                [ucast (drop_bit 8 addr AND 0xFF), ucast (addr AND 0xFF)] True 2,
              BusRead AT24C256_ADDRESS (length data) False (int (length data))]"
    by (simp add: read_buffer_ready [OF assms(1)] new_events_def)
next
  from write_buffer_ready [OF assms(1,2), of addr data]
  obtain s' where w: "eeprom_write_buffer addr data (length data) s = Some s'"
    and ev: "new_events s s' = segments_trace (dummy_at s) (wait_calls s) k (spec_page_segments addr data)"
    by blast
  have flt: "filter is_page_write (new_events s s')
             = map (\<lambda>(a, c). page_write_event a c) (spec_page_segments addr data)"
    by (simp add: ev filter_page_segments_trace)
  have first: "hd (new_events s s')
               = page_write_event addr
                   (take (min (length data) (PAGE_SIZE - unat addr mod PAGE_SIZE)) data)"
    if "data \<noteq> []"
    by (simp add: ev spec_page_segments_Cons [OF that] segments_trace_def)
  show "\<exists>s'. eeprom_write_buffer addr data (length data) s = Some s'
              \<and> filter is_page_write (new_events s s')
                  = map (\<lambda>(a, c). page_write_event a c) (spec_page_segments addr data)
              \<and> (data \<noteq> [] \<longrightarrow>
                   hd (new_events s s')
                   = page_write_event addr
                       (take (min (length data) (PAGE_SIZE - unat addr mod PAGE_SIZE)) data))"
    using w flt first by blast
qed

theorem out_of_range_unchecked_witness:
  "busy blank_world = 0 \<and> twr blank_world = enat 5000
   \<and> CAPACITY < unat (0x7FFE :: u16) + length [5, 6, 7 :: u8]
   \<and> new_events blank_world (snd (eeprom_read_buffer 0x7FFE [0, 0, 0] 3 blank_world))
       = [BusWrite AT24C256_ADDRESS [0x7F, 0xFE] True 2, BusRead AT24C256_ADDRESS 3 False 3]
   \<and> (\<exists>s'. eeprom_write_buffer 0x7FFE [5, 6, 7] 3 blank_world = Some s'
          \<and> hd (new_events blank_world s') = BusWrite AT24C256_ADDRESS [0x7F, 0xFE, 5, 6] False 4)"
proof -
  have b: "busy blank_world = 0" and k: "twr blank_world = enat 5000"
    by (simp_all add: blank_world_def)
  have r: "CAPACITY < unat (0x7FFE :: u16) + length [5, 6, 7 :: u8]"
    by (simp add: CAPACITY_def)
  have len: "length [5, 6, 7 :: u8] = 3" by simp
  have ne: "[5, 6, 7 :: u8] \<noteq> []" by simp
  have first: "page_write_event 0x7FFE
                 (take (min 3 (PAGE_SIZE - unat (0x7FFE :: u16) mod PAGE_SIZE)) [5, 6, 7])
               = BusWrite AT24C256_ADDRESS [0x7F, 0xFE, 5, 6] False 4"
    by (simp add: page_write_event_def PAGE_SIZE_def)
  have hi: "(ucast (drop_bit 8 (0x7FFE :: u16) AND 0xFF) :: u8) = 0x7F"
    and lo: "(ucast ((0x7FFE :: u16) AND 0xFF) :: u8) = 0xFE"
    by simp_all
  show ?thesis
    using out_of_range_unchecked [OF b k r, of "[0, 0, 0]", unfolded len first hi lo] b k r ne
    by auto
qed

section \<open>Write if changed\<close>

lemma read_byte_state:
  "busy s = 0 \<Longrightarrow>
   eeprom_read_byte addr s =
     (mem s (unat addr mod CAPACITY),
      s\<lparr>ptr := (unat addr mod CAPACITY + 1) mod CAPACITY,
        trace := trace s
          @ [BusWrite AT24C256_ADDRESS
               [ucast (drop_bit 8 addr AND 0xFF), ucast (addr AND 0xFF)] True 2,
             BusRead AT24C256_ADDRESS 1 False 1]\<rparr>)"
  by (simp add: eeprom_read_byte_def i2c_write_blocking_def
      i2c_read_blocking_def log_event_def device_read_def wire_addr_enc Let_def CAPACITY_def)

lemma write_byte_ready:
  assumes "busy s = 0" and "twr s = enat k"
  shows "eeprom_write_byte addr v s =
     Some (s\<lparr>mem := (mem s)(unat addr mod CAPACITY := v),
             ptr := page_next (unat addr mod CAPACITY),
             trace := trace s @ page_write_event addr [v]
                        # ready_barrier (dummy_at s (wait_calls s)) k,
             wait_calls := Suc (wait_calls s)\<rparr>)"
  using write_page_raw_ready [OF assms, of "Suc 0" "[v]" addr]
  by (simp add: write_page_raw_one)

text \<open>
  C5: on a device that answers, \<^verbatim>\<open>eeprom_update_byte\<close> returns and begins with the read
  of the stored byte (address write with the bus held, then a one-byte read). If the
  stored byte equals the new value nothing else is logged and the cells are unchanged;
  if it differs, exactly one write of that one byte follows, with its ready barrier, and
  the cell holds the new value.
\<close>

theorem update_byte_reads_first:
  assumes "busy s = 0" and "twr s = enat k"
  shows "\<exists>s'. eeprom_update_byte addr new_val s = Some s'
      \<and> take 2 (new_events s s')
          = [BusWrite AT24C256_ADDRESS
               [ucast (drop_bit 8 addr AND 0xFF), ucast (addr AND 0xFF)] True 2,
             BusRead AT24C256_ADDRESS 1 False 1]
      \<and> (mem s (unat addr mod CAPACITY) = new_val \<longrightarrow>
            drop 2 (new_events s s') = [] \<and> mem s' = mem s)
      \<and> (mem s (unat addr mod CAPACITY) \<noteq> new_val \<longrightarrow>
            drop 2 (new_events s s')
              = BusWrite AT24C256_ADDRESS
                  [ucast (drop_bit 8 addr AND 0xFF), ucast (addr AND 0xFF), new_val] False 3
                # ready_barrier (dummy_at s (wait_calls s)) k
            \<and> filter is_page_write (new_events s s')
              = [BusWrite AT24C256_ADDRESS
                  [ucast (drop_bit 8 addr AND 0xFF), ucast (addr AND 0xFF), new_val] False 3]
            \<and> mem s' = (mem s)(unat addr mod CAPACITY := new_val))"
proof (cases "mem s (unat addr mod CAPACITY) = new_val")
  case True
  then show ?thesis
    by (simp add: eeprom_update_byte_def read_byte_state [OF assms(1)] new_events_def)
next
  case False
  define s1 where "s1 = s\<lparr>ptr := (unat addr mod CAPACITY + 1) mod CAPACITY,
        trace := trace s
          @ [BusWrite AT24C256_ADDRESS
               [ucast (drop_bit 8 addr AND 0xFF), ucast (addr AND 0xFF)] True 2,
             BusRead AT24C256_ADDRESS 1 False 1]\<rparr>"
  define s2 where "s2 = s1\<lparr>mem := (mem s1)(unat addr mod CAPACITY := new_val),
             ptr := page_next (unat addr mod CAPACITY),
             trace := trace s1 @ page_write_event addr [new_val]
                        # ready_barrier (dummy_at s1 (wait_calls s1)) k,
             wait_calls := Suc (wait_calls s1)\<rparr>"
  have b1: "busy s1 = 0" and k1: "twr s1 = enat k" using assms by (simp_all add: s1_def)
  have rd: "eeprom_read_byte addr s = (mem s (unat addr mod CAPACITY), s1)"
    unfolding s1_def by (rule read_byte_state [OF assms(1)])
  have wr: "eeprom_write_byte addr new_val s1 = Some s2"
    unfolding s2_def by (rule write_byte_ready [OF b1 k1])
  have up: "eeprom_update_byte addr new_val s = Some s2"
    using False by (simp add: eeprom_update_byte_def rd wr)
  have ev: "new_events s s2
            = [BusWrite AT24C256_ADDRESS
                 [ucast (drop_bit 8 addr AND 0xFF), ucast (addr AND 0xFF)] True 2,
               BusRead AT24C256_ADDRESS 1 False 1,
               BusWrite AT24C256_ADDRESS
                 [ucast (drop_bit 8 addr AND 0xFF), ucast (addr AND 0xFF), new_val] False 3]
              @ ready_barrier (dummy_at s (wait_calls s)) k"
    by (simp add: new_events_def s2_def s1_def page_write_event_def)
  have m: "mem s2 = (mem s)(unat addr mod CAPACITY := new_val)"
    by (simp add: s2_def s1_def)
  show ?thesis using False up m
    by (simp add: ev filter_ready_barrier)
qed

theorem update_byte_reads_first_witness:
  "busy blank_world = 0 \<and> twr blank_world = enat 5000
   \<and> mem blank_world (unat (0x0028 :: u16) mod CAPACITY) \<noteq> 0xAB
   \<and> (\<exists>s'. eeprom_update_byte 0x0028 0xAB blank_world = Some s'
          \<and> filter is_page_write (new_events blank_world s')
              = [BusWrite AT24C256_ADDRESS [0x00, 0x28, 0xAB] False 3]
          \<and> mem s' = (mem blank_world)(0x28 := 0xAB))"
proof -
  have b: "busy blank_world = 0" and k: "twr blank_world = enat 5000"
    by (simp_all add: blank_world_def)
  have a: "unat (0x0028 :: u16) mod CAPACITY = 0x28" by (simp add: CAPACITY_def)
  have d: "mem blank_world 0x28 \<noteq> 0xAB" by (simp add: blank_world_def)
  have hi: "(ucast (drop_bit 8 (0x0028 :: u16) AND 0xFF) :: u8) = 0"
    and lo: "(ucast ((0x0028 :: u16) AND 0xFF) :: u8) = 0x28"
    by simp_all
  show ?thesis
    using update_byte_reads_first [OF b k, of "0x0028" "0xAB", unfolded a hi lo] b k d a
    by auto
qed

section \<open>The ready barrier\<close>

lemma write_page_raw_stuck:
  assumes "busy s = 0" and "twr s = \<infinity>" and "0 < len" and "len \<le> length data"
  shows "eeprom_write_page_raw a data len s = None"
proof -
  have ne: "take len data \<noteq> []" using assms by auto
  have tk: "take (len + 2) ([ucast (drop_bit 8 a AND 0xFF), ucast (a AND 0xFF)] @ take len data)
            = [ucast (drop_bit 8 a AND 0xFF), ucast (a AND 0xFF)] @ take len data"
    by simp
  show ?thesis
    unfolding eeprom_write_page_raw_def Let_def tk i2c_write_page_ready [OF assms(1) ne]
    by (rule wait_ready_inf) (simp add: assms)
qed

lemma write_byte_stuck:
  "busy s = 0 \<Longrightarrow> twr s = \<infinity> \<Longrightarrow> eeprom_write_byte addr v s = None"
  using write_page_raw_stuck [of s "Suc 0" "[v]" addr] by (simp add: write_page_raw_one)

lemma write_buffer_stuck:
  assumes "busy s = 0" and "twr s = \<infinity>" and "data \<noteq> []"
  shows "eeprom_write_buffer addr data (length data) s = None"
proof -
  let ?c = "min (length data) (PAGE_SIZE - unat addr mod PAGE_SIZE)"
  have pos: "0 < ?c" using assms(3) by (simp add: PAGE_SIZE_def)
  have raw: "eeprom_write_page_raw addr (drop 0 data) ?c s = None"
    by (rule write_page_raw_stuck [OF assms(1,2) pos]) simp
  show ?thesis
    unfolding eeprom_write_buffer_def using assms(3) raw
    by (subst write_loop.simps) (simp add: chunk_size_min Let_def)
qed

lemma write_page_raw_absent:
  assumes "busy s = \<infinity>"
  shows "eeprom_write_page_raw a data len s = None"
  unfolding eeprom_write_page_raw_def Let_def
  by (rule wait_ready_inf) (simp add: i2c_write_blocking_def log_event_def assms)

lemma write_byte_absent: "busy s = \<infinity> \<Longrightarrow> eeprom_write_byte addr v s = None"
  using write_page_raw_absent [of s addr "[v]" "Suc 0"] by (simp add: write_page_raw_one)

lemma write_buffer_absent:
  assumes "busy s = \<infinity>" and "data \<noteq> []"
  shows "eeprom_write_buffer addr data (length data) s = None"
  unfolding eeprom_write_buffer_def using assms(2)
  by (subst write_loop.simps) (simp add: Let_def write_page_raw_absent [OF assms(1)])

text \<open>
  C9: every write transaction is followed by the ready barrier before anything else
  happens. On a device whose write cycle takes \<open>k\<close> microseconds, \<^verbatim>\<open>eeprom_write_byte\<close>
  logs its write and then \<open>\<lceil>k / 100\<rceil>\<close> refused probes, one per 100 microsecond backoff,
  and the acknowledged probe, and only then returns, with the device ready;
  \<^verbatim>\<open>eeprom_write_buffer\<close> logs such a barrier after each of its page writes, before the
  next page write and before returning. The probes of one barrier send the byte that
  this call of \<^verbatim>\<open>eeprom_wait_ready\<close> found in its uninitialised local, which may differ
  from barrier to barrier. The number of probes grows with \<open>k\<close> without a bound, and on
  a device that never acknowledges, be it after the write or from the start, neither
  call returns.
\<close>

theorem ready_barrier_after_each_write:
  "(busy s = 0 \<and> twr s = enat k \<longrightarrow>
      (\<exists>s'. eeprom_write_byte addr v s = Some s' \<and> busy s' = 0
         \<and> new_events s s'
             = page_write_event addr [v]
               # replicate ((k + 99) div 100)
                   (probe (dummy_at s (wait_calls s)) PICO_ERROR_GENERIC)
               @ [probe (dummy_at s (wait_calls s)) 1])
    \<and> (\<exists>s'. eeprom_write_buffer addr data (length data) s = Some s' \<and> busy s' = 0
         \<and> new_events s s'
             = concat (map (\<lambda>(i, a, c). page_write_event a c
                  # replicate ((k + 99) div 100) (probe (dummy_at s i) PICO_ERROR_GENERIC)
                  @ [probe (dummy_at s i) 1])
                 (List.enumerate (wait_calls s) (spec_page_segments addr data)))))
   \<and> (busy s = \<infinity> \<or> busy s = 0 \<and> twr s = \<infinity> \<longrightarrow>
        eeprom_write_byte addr v s = None
      \<and> (data \<noteq> [] \<longrightarrow> eeprom_write_buffer addr data (length data) s = None))"
proof (intro conjI impI)
  assume "busy s = 0 \<and> twr s = enat k"
  then have b: "busy s = 0" and k: "twr s = enat k" by simp_all
  show "\<exists>s'. eeprom_write_byte addr v s = Some s' \<and> busy s' = 0
         \<and> new_events s s'
             = page_write_event addr [v]
               # replicate ((k + 99) div 100)
                   (probe (dummy_at s (wait_calls s)) PICO_ERROR_GENERIC)
               @ [probe (dummy_at s (wait_calls s)) 1]"
    using b by (simp add: write_byte_ready [OF b k] new_events_def ready_barrier_def)
  from write_buffer_ready [OF b k, of addr data]
  show "\<exists>s'. eeprom_write_buffer addr data (length data) s = Some s' \<and> busy s' = 0
         \<and> new_events s s'
             = concat (map (\<lambda>(i, a, c). page_write_event a c
                  # replicate ((k + 99) div 100) (probe (dummy_at s i) PICO_ERROR_GENERIC)
                  @ [probe (dummy_at s i) 1])
                 (List.enumerate (wait_calls s) (spec_page_segments addr data)))"
    by (auto simp: segments_trace_def ready_barrier_def)
next
  assume "busy s = \<infinity> \<or> busy s = 0 \<and> twr s = \<infinity>"
  then show "eeprom_write_byte addr v s = None"
    by (auto intro: write_byte_absent write_byte_stuck)
next
  assume "busy s = \<infinity> \<or> busy s = 0 \<and> twr s = \<infinity>" and "data \<noteq> []"
  then show "eeprom_write_buffer addr data (length data) s = None"
    by (auto intro: write_buffer_absent write_buffer_stuck)
qed

theorem ready_barrier_after_each_write_witness:
  "busy blank_world = 0 \<and> twr blank_world = enat 5000
   \<and> (\<exists>s'. eeprom_write_byte 62 0xAB blank_world = Some s' \<and> busy s' = 0
          \<and> new_events blank_world s'
              = BusWrite AT24C256_ADDRESS [0, 62, 0xAB] False 3
                # replicate 50 (BusWrite AT24C256_ADDRESS [0xF7] False (- 1))
                @ [BusWrite AT24C256_ADDRESS [0xF7] False 1])
   \<and> (\<exists>s'. eeprom_write_buffer 62 [7, 8, 9] 3 blank_world = Some s' \<and> busy s' = 0
          \<and> new_events blank_world s'
              = BusWrite AT24C256_ADDRESS [0, 62, 7, 8] False 4
                # replicate 50 (BusWrite AT24C256_ADDRESS [0xF7] False (- 1))
                @ [BusWrite AT24C256_ADDRESS [0xF7] False 1]
                @ BusWrite AT24C256_ADDRESS [0, 64, 9] False 3
                # replicate 50 (BusWrite AT24C256_ADDRESS [0] False (- 1))
                @ [BusWrite AT24C256_ADDRESS [0] False 1])
   \<and> busy stuck_world = 0 \<and> twr stuck_world = \<infinity>
   \<and> eeprom_write_byte 0x28 0xAB stuck_world = None
   \<and> eeprom_write_buffer 0x28 [0xAB, 0xCD] 2 stuck_world = None
   \<and> busy absent_world = \<infinity>
   \<and> eeprom_write_byte 0x28 0xAB absent_world = None
   \<and> eeprom_write_buffer 0x28 [0xAB, 0xCD] 2 absent_world = None"
proof -
  have b: "busy blank_world = 0" and k: "twr blank_world = enat 5000"
    and c: "wait_calls blank_world = 0"
    and j0: "dummy_at blank_world 0 = 0xF7" and j1: "dummy_at blank_world (Suc 0) = 0"
    by (simp_all add: blank_world_def)
  have b': "busy stuck_world = 0" and k': "twr stuck_world = \<infinity>"
    by (simp_all add: stuck_world_def blank_world_def)
  have b'': "busy absent_world = \<infinity>"
    by (simp add: absent_world_def)
  have segs: "spec_page_segments 62 [7, 8, 9] = [(62, [7, 8]), (64, [9])]"
    by (simp add: spec_page_segments_Cons spec_page_segments_Nil PAGE_SIZE_def)
  have n: "(5000 + 99) div 100 = (50 :: nat)" by simp
  have len: "length [0xAB, 0xCD :: u8] = 2" and len3: "length [7, 8, 9 :: u8] = 3"
    by simp_all
  have ne: "[0xAB, 0xCD :: u8] \<noteq> []" by simp
  have ready:
    "(\<exists>s'. eeprom_write_byte 62 0xAB blank_world = Some s' \<and> busy s' = 0
          \<and> new_events blank_world s'
              = BusWrite AT24C256_ADDRESS [0, 62, 0xAB] False 3
                # replicate 50 (BusWrite AT24C256_ADDRESS [0xF7] False (- 1))
                @ [BusWrite AT24C256_ADDRESS [0xF7] False 1])
     \<and> (\<exists>s'. eeprom_write_buffer 62 [7, 8, 9] 3 blank_world = Some s' \<and> busy s' = 0
          \<and> new_events blank_world s'
              = BusWrite AT24C256_ADDRESS [0, 62, 7, 8] False 4
                # replicate 50 (BusWrite AT24C256_ADDRESS [0xF7] False (- 1))
                @ [BusWrite AT24C256_ADDRESS [0xF7] False 1]
                @ BusWrite AT24C256_ADDRESS [0, 64, 9] False 3
                # replicate 50 (BusWrite AT24C256_ADDRESS [0] False (- 1))
                @ [BusWrite AT24C256_ADDRESS [0] False 1])"
    using ready_barrier_after_each_write [of blank_world 5000 62 "0xAB" "[7, 8, 9]",
            unfolded len3 n]
    by (simp only: b k c j0 j1 segs simp_thms enumerate_simps list.map concat.simps
          prod.case append_Nil append_Cons append_Nil2 append_assoc
          page_write_event_def probe_def PICO_ERROR_GENERIC_def)
       simp
  show ?thesis
    using ready
          ready_barrier_after_each_write [of stuck_world 0 "0x28" "0xAB" "[0xAB, 0xCD]",
            unfolded len]
          ready_barrier_after_each_write [of absent_world 0 "0x28" "0xAB" "[0xAB, 0xCD]",
            unfolded len]
          b k b' k' b'' ne
    by blast
qed

section \<open>The checksum\<close>

lemma length_object_bytes: "length (object_bytes r) = 40"
  by (simp add: object_bytes_def le32_def le16_def)

lemma last_object_bytes: "last (object_bytes r) = checksum r"
  by (simp add: object_bytes_def)

lemma object_bytes_nth_39: "object_bytes r ! 39 = checksum r"
proof -
  have "object_bytes r \<noteq> []" using length_object_bytes [of r] by auto
  then have "last (object_bytes r) = object_bytes r ! (length (object_bytes r) - 1)"
    by (rule last_conv_nth)
  then show ?thesis by (simp add: length_object_bytes last_object_bytes)
qed

lemma fold_add_nth:
  "n \<le> length bs \<Longrightarrow>
   fold (\<lambda>i sum. sum + bs ! i) [0..<n] (a :: u8) = a + sum_list (take n bs)"
proof (induction n)
  case 0
  then show ?case by simp
next
  case (Suc n)
  then show ?case by (simp add: take_Suc_conv_app_nth)
qed

lemma unat_sum_list_u8: "unat (sum_list ws :: u8) = sum_list (map unat ws) mod 256"
proof (induction ws)
  case Nil
  then show ?case by simp
next
  case (Cons w ws)
  have "unat (w + sum_list ws) = (unat w + unat (sum_list ws)) mod 256"
    by (simp add: unat_word_ariths)
  also have "\<dots> = (unat w + sum_list (map unat ws)) mod 256"
    by (simp add: Cons.IH mod_add_right_eq)
  finally show ?case by simp
qed

lemma calc_checksum_sum: "calc_checksum r = sum_list (butlast (object_bytes r))"
  by (simp add: calc_checksum_def sizeof_SystemSettings_def fold_add_nth length_object_bytes
      butlast_conv_take)

lemma butlast_object_bytes_checksum:
  "butlast (object_bytes (r\<lparr>checksum := c\<rparr>)) = butlast (object_bytes r)"
  by (simp add: object_bytes_def butlast_append)

text \<open>
  C6: \<^verbatim>\<open>calc_checksum\<close> is the sum modulo 256 of the bytes of the record's object
  representation without its last byte, and that last byte is the checksum member. So
  the result depends on those 39 bytes only: the checksum byte adds nothing, whatever it
  holds.
\<close>

theorem calc_checksum_truncated_sum:
  "length (object_bytes r) = sizeof_SystemSettings
   \<and> last (object_bytes r) = checksum r
   \<and> unat (calc_checksum r) = sum_list (map unat (butlast (object_bytes r))) mod 256
   \<and> calc_checksum (r\<lparr>checksum := c\<rparr>) = calc_checksum r
   \<and> (butlast (object_bytes r) = butlast (object_bytes r') \<longrightarrow>
        calc_checksum r = calc_checksum r')"
  by (simp add: calc_checksum_sum unat_sum_list_u8 butlast_object_bytes_checksum
      length_object_bytes sizeof_SystemSettings_def)
     (simp add: object_bytes_def)


theorem calc_checksum_truncated_sum_witness:
  "butlast (object_bytes (current_settings blank_world))
     = butlast (object_bytes ((current_settings blank_world)\<lparr>checksum := 9\<rparr>))
   \<and> calc_checksum (current_settings blank_world)
       = calc_checksum ((current_settings blank_world)\<lparr>checksum := 9\<rparr>)
   \<and> unat (calc_checksum (current_settings blank_world))
       = sum_list (map unat (butlast (object_bytes (current_settings blank_world)))) mod 256"
proof -
  have e: "butlast (object_bytes (current_settings blank_world))
           = butlast (object_bytes ((current_settings blank_world)\<lparr>checksum := 9\<rparr>))"
    by (rule butlast_object_bytes_checksum [symmetric])
  from calc_checksum_truncated_sum
          [where r = "current_settings blank_world" and c = 9
             and r' = "(current_settings blank_world)\<lparr>checksum := 9\<rparr>"] e
  show ?thesis by blast
qed

section \<open>Saving the settings\<close>

lemma le16_of_le16: "le16 (of_le16 [b0, b1]) = [b0, b1]"
  unfolding le16_def of_le16_def
  by (simp, intro conjI; rule bit_word_eqI; auto simp: bit_simps dest: bit_imp_le_length)

lemma le32_of_le32: "le32 (of_le32 [b0, b1, b2, b3]) = [b0, b1, b2, b3]"
  unfolding le32_def of_le32_def
  by (simp, intro conjI; rule bit_word_eqI; auto simp: bit_simps dest: bit_imp_le_length)

lemma list2: "length xs = 2 \<Longrightarrow> xs = [xs ! 0, xs ! 1]"
  by (rule nth_equalityI) (auto simp: nth_Cons' less_Suc_eq numeral_2_eq_2)

lemma list4: "length xs = 4 \<Longrightarrow> xs = [xs ! 0, xs ! 1, xs ! 2, xs ! 3]"
  by (rule nth_equalityI) (auto simp: nth_Cons' less_Suc_eq numeral_eq_Suc)


lemma object_bytes_of_bytes:
  assumes "length bs = 40"
  shows "object_bytes (object_of_bytes bs) = bs"
proof -
  have "length (take 4 bs) = 4" using assms by simp
  from list4 [OF this] obtain a0 a1 a2 a3 where A: "take 4 bs = [a0, a1, a2, a3]" by blast
  have "length (take 2 (drop 4 bs)) = 2" using assms by simp
  from list2 [OF this] obtain c0 c1 where B: "take 2 (drop 4 bs) = [c0, c1]" by blast
  have "length (drop 38 bs) = 2" using assms by simp
  from list2 [OF this] have D: "[bs ! 38, bs ! 39] = drop 38 bs" using assms by simp
  have C: "take 32 (take 32 (drop 6 bs) @ replicate 32 0) = take 32 (drop 6 bs)"
    using assms by simp
  have split: "bs = take 4 bs @ take 2 (drop 4 bs) @ take 32 (drop 6 bs) @ drop 38 bs"
  proof -
    have "bs = take 4 bs @ drop 4 bs" by simp
    also have "drop 4 bs = take 2 (drop 4 bs) @ drop 6 bs"
      using append_take_drop_id [of 2 "drop 4 bs"] by simp
    also have "drop 6 bs = take 32 (drop 6 bs) @ drop 38 bs"
      using append_take_drop_id [of 32 "drop 6 bs"] by simp
    finally show ?thesis .
  qed
  have "object_bytes (object_of_bytes bs)
        = take 4 bs @ take 2 (drop 4 bs) @ take 32 (drop 6 bs) @ drop 38 bs"
    unfolding object_bytes_def object_of_bytes_def
    by (simp only: SystemSettings.simps C D) (simp only: A B le32_of_le32 le16_of_le16)
  with split show ?thesis by simp
qed


lemma spec_page_segments_settings:
  assumes "length bs = 40"
  shows "spec_page_segments SETTINGS_ADDR bs = [(SETTINGS_ADDR, bs)]"
proof -
  have ne: "bs \<noteq> []" using assms by auto
  have c: "min (length bs) (PAGE_SIZE - unat SETTINGS_ADDR mod PAGE_SIZE) = 40"
    using assms by (simp add: PAGE_SIZE_def SETTINGS_ADDR_def)
  show ?thesis
    unfolding spec_page_segments_Cons [OF ne] c using assms by (simp add: spec_page_segments_Nil)
qed

lemma settings_save_ready:
  assumes "busy s = 0" and "twr s = enat k"
  shows "\<exists>s'. settings_save s = Some s' \<and> busy s' = 0 \<and> twr s' = twr s
      \<and> current_settings s'
          = (current_settings s)\<lparr>checksum := calc_checksum (current_settings s)\<rparr>
      \<and> new_events s s'
          = page_write_event SETTINGS_ADDR (object_bytes (current_settings s'))
            # ready_barrier (dummy_at s (wait_calls s)) k
      \<and> (\<forall>j. mem s' j = (if j < 40 then object_bytes (current_settings s') ! j else mem s j))
      \<and> trace s'
          = trace s @ page_write_event SETTINGS_ADDR (object_bytes (current_settings s'))
                      # ready_barrier (dummy_at s (wait_calls s)) k"
proof -
  define r where "r = (current_settings s)\<lparr>checksum := calc_checksum (current_settings s)\<rparr>"
  define s1 where "s1 = s\<lparr>current_settings := r\<rparr>"
  have b1: "busy s1 = 0" and k1: "twr s1 = enat k" using assms by (simp_all add: s1_def)
  have len: "length (object_bytes r) = 40" by (rule length_object_bytes)
  have range: "unat SETTINGS_ADDR + length (object_bytes r) \<le> CAPACITY"
    by (simp add: len SETTINGS_ADDR_def CAPACITY_def)
  have save: "settings_save s = eeprom_write_buffer SETTINGS_ADDR (object_bytes r) 40 s1"
    by (simp add: settings_save_def Let_def s1_def r_def sizeof_SystemSettings_def)
  from write_buffer_ready [OF b1 k1, of SETTINGS_ADDR "object_bytes r", unfolded len]
  obtain s' where w: "eeprom_write_buffer SETTINGS_ADDR (object_bytes r) 40 s1 = Some s'"
    and b': "busy s' = 0" and k': "twr s' = twr s1" and c': "current_settings s' = current_settings s1"
    and m': "mem s' = segments_mem (spec_page_segments SETTINGS_ADDR (object_bytes r)) (mem s1)"
    and e': "new_events s1 s'
             = segments_trace (dummy_at s1) (wait_calls s1) k (spec_page_segments SETTINGS_ADDR (object_bytes r))"
    and t': "trace s'
             = trace s1 @ segments_trace (dummy_at s1) (wait_calls s1) k
                            (spec_page_segments SETTINGS_ADDR (object_bytes r))"
    by blast
  have cs: "current_settings s' = r" using c' by (simp add: s1_def)
  have ev: "new_events s s'
            = page_write_event SETTINGS_ADDR (object_bytes r) # ready_barrier (dummy_at s (wait_calls s)) k"
    using e' by (simp add: new_events_def s1_def spec_page_segments_settings [OF len] segments_trace_def)
  have cells: "mem s' j = (if j < 40 then object_bytes r ! j else mem s j)" for j
    unfolding m' using segments_mem_in_range [OF range, of "mem s1" j]
    by (simp add: len SETTINGS_ADDR_def s1_def)
  have tr: "trace s'
            = trace s @ page_write_event SETTINGS_ADDR (object_bytes r)
                        # ready_barrier (dummy_at s (wait_calls s)) k"
    using t' by (simp add: s1_def spec_page_segments_settings [OF len] segments_trace_def)
  show ?thesis
    using w b' k' cs ev cells tr unfolding save by (simp add: s1_def r_def)
qed


lemma reload_checksum:
  assumes "length bs = 40"
  shows "checksum (object_of_bytes bs) = bs ! 39"
    and "calc_checksum (object_of_bytes bs) = sum_list (butlast bs)"
proof -
  show "checksum (object_of_bytes bs) = bs ! 39" by (simp add: object_of_bytes_def)
  show "calc_checksum (object_of_bytes bs) = sum_list (butlast bs)"
    by (simp only: calc_checksum_sum object_bytes_of_bytes [OF assms])
qed

text \<open>
  C8: on a device that answers, \<^verbatim>\<open>settings_save\<close> returns; it has set the checksum
  member to the checksum of the other bytes and has written the whole 40-byte object in
  a page write at the settings address. The cells \<open>0..39\<close> then hold the object, and
  among them the checksum byte, cell 39, is the sum of the cells before it: the
  persisted record passes the checksum test of a later load.
\<close>

theorem settings_save_persists_checksum:
  assumes "busy s = 0" and "twr s = enat k"
  shows "\<exists>s'. settings_save s = Some s'
      \<and> current_settings s'
          = (current_settings s)\<lparr>checksum := calc_checksum (current_settings s)\<rparr>
      \<and> filter is_page_write (new_events s s')
          = [page_write_event SETTINGS_ADDR (object_bytes (current_settings s'))]
      \<and> length (object_bytes (current_settings s')) = sizeof_SystemSettings
      \<and> map (mem s') [0..<sizeof_SystemSettings] = object_bytes (current_settings s')
      \<and> mem s' 39 = sum_list (map (mem s') [0..<39])
      \<and> checksum (object_of_bytes (map (mem s') [0..<sizeof_SystemSettings]))
          = calc_checksum (object_of_bytes (map (mem s') [0..<sizeof_SystemSettings]))"
proof -
  from settings_save_ready [OF assms]
  obtain s' where sv: "settings_save s = Some s'"
    and cs: "current_settings s'
             = (current_settings s)\<lparr>checksum := calc_checksum (current_settings s)\<rparr>"
    and ev: "new_events s s'
             = page_write_event SETTINGS_ADDR (object_bytes (current_settings s'))
               # ready_barrier (dummy_at s (wait_calls s)) k"
    and cells: "\<And>j. mem s' j = (if j < 40 then object_bytes (current_settings s') ! j else mem s j)"
    by blast
  let ?r = "current_settings s'"
  have len: "length (object_bytes ?r) = 40" by (rule length_object_bytes)
  have pw: "filter is_page_write (new_events s s')
            = [page_write_event SETTINGS_ADDR (object_bytes ?r)]"
    using len by (auto simp: ev filter_ready_barrier is_page_write_event)
  have img: "map (mem s') [0..<40] = object_bytes ?r"
    by (rule nth_equalityI) (simp_all add: len cells)
  have sum: "checksum ?r = sum_list (butlast (object_bytes ?r))"
    unfolding cs by (simp add: butlast_object_bytes_checksum calc_checksum_sum)
  have c39: "mem s' 39 = checksum ?r"
    by (simp add: cells object_bytes_nth_39)
  have "map (mem s') [0..<39] = take 39 (map (mem s') [0..<40])"
    by (simp add: take_map)
  also have "\<dots> = butlast (object_bytes ?r)"
    unfolding img by (simp add: butlast_conv_take len)
  finally have pre: "map (mem s') [0..<39] = butlast (object_bytes ?r)" .
  have byte: "mem s' 39 = sum_list (map (mem s') [0..<39])"
    by (simp only: c39 sum pre)
  have reload: "checksum (object_of_bytes (map (mem s') [0..<40]))
                = calc_checksum (object_of_bytes (map (mem s') [0..<40]))"
    unfolding img reload_checksum [OF len] by (simp add: object_bytes_nth_39 sum)
  show ?thesis
    using sv cs pw len img byte reload by (simp add: sizeof_SystemSettings_def)
qed

theorem settings_save_persists_checksum_witness:
  "busy blank_world = 0 \<and> twr blank_world = enat 5000
   \<and> (\<exists>s'. settings_save blank_world = Some s'
          \<and> map (mem s') [0..<sizeof_SystemSettings] = object_bytes (current_settings s')
          \<and> mem s' 39 = sum_list (map (mem s') [0..<39]))"
proof -
  have b: "busy blank_world = 0" and k: "twr blank_world = enat 5000"
    by (simp_all add: blank_world_def)
  from settings_save_persists_checksum [OF b k] b k show ?thesis by blast
qed

section \<open>Loading the settings\<close>

lemma read_settings_bytes:
  assumes "busy s = 0" and "length buf = 40"
  shows "fst (eeprom_read_buffer SETTINGS_ADDR buf 40 s) = map (mem s) [0..<40]"
proof -
  have "map (\<lambda>i. mem s ((unat SETTINGS_ADDR mod CAPACITY + i) mod CAPACITY)) [0..<40]
        = map (mem s) [0..<40]"
    by (rule nth_equalityI) (simp_all add: SETTINGS_ADDR_def CAPACITY_def)
  then show ?thesis using assms(2) by (simp add: read_buffer_ready [OF assms(1)])
qed

lemma read_settings_state:
  assumes "busy s = 0"
  shows "busy (snd (eeprom_read_buffer SETTINGS_ADDR buf 40 s)) = 0"
    and "twr (snd (eeprom_read_buffer SETTINGS_ADDR buf 40 s)) = twr s"
    and "mem (snd (eeprom_read_buffer SETTINGS_ADDR buf 40 s)) = mem s"
    and "dummy_at (snd (eeprom_read_buffer SETTINGS_ADDR buf 40 s)) = dummy_at s"
    and "wait_calls (snd (eeprom_read_buffer SETTINGS_ADDR buf 40 s)) = wait_calls s"
    and "trace (snd (eeprom_read_buffer SETTINGS_ADDR buf 40 s))
         = trace s @ [BusWrite AT24C256_ADDRESS [0, 0] True 2,
                      BusRead AT24C256_ADDRESS 40 False 40]"
  using assms by (simp_all add: read_buffer_ready [OF assms] SETTINGS_ADDR_def)

lemma settings_init_unfold:
  assumes "busy s = 0"
  shows "settings_init s =
    (if magic (object_of_bytes (map (mem s) [0..<40])) \<noteq> MAGIC_CODE
        \<or> checksum (object_of_bytes (map (mem s) [0..<40]))
            \<noteq> calc_checksum (object_of_bytes (map (mem s) [0..<40]))
     then settings_save
            ((snd (eeprom_read_buffer SETTINGS_ADDR (object_bytes (current_settings s)) 40 s))
               \<lparr>current_settings :=
                  (object_of_bytes (map (mem s) [0..<40]))
                    \<lparr>magic := MAGIC_CODE,
                     wifi_ssid := strcpy (wifi_ssid (object_of_bytes (map (mem s) [0..<40])))
                                    ''MyWifi'',
                     volume := 50,
                     motor_offset := 0\<rparr>\<rparr>)
     else Some ((snd (eeprom_read_buffer SETTINGS_ADDR (object_bytes (current_settings s)) 40 s))
                  \<lparr>current_settings := object_of_bytes (map (mem s) [0..<40])\<rparr>))"
proof -
  have f: "fst (eeprom_read_buffer SETTINGS_ADDR (object_bytes (current_settings s)) 40 s)
           = map (mem s) [0..<40]"
    by (rule read_settings_bytes [OF assms length_object_bytes])
  show ?thesis
    unfolding settings_init_def sizeof_SystemSettings_def Let_def
    by (simp only: case_prod_beta f world.simps) simp
qed


lemma strcpy_MyWifi:
  "take 7 (strcpy dst ''MyWifi'') = map (\<lambda>c. of_nat (of_char c)) ''MyWifi'' @ [0]"
  "drop 7 (strcpy dst ''MyWifi'') = drop 7 dst"
  by (simp_all add: strcpy_def eval_nat_numeral)

lemma default_settings_sum: "calc_checksum default_settings = 0x86"
  by (simp add: calc_checksum_sum object_bytes_def default_settings_def le32_def le16_def
      strcpy_def MAGIC_CODE_def butlast_append sum_list_replicate)

lemma magic_of_object_bytes: "magic (object_of_bytes (object_bytes r)) = magic r"
proof -
  have "take 2 (drop 4 (object_bytes r)) = le16 (magic r)"
    by (simp add: object_bytes_def le32_def le16_def)
  moreover have "of_le16 (le16 (magic r)) = magic r"
    unfolding le16_def of_le16_def
    by (rule bit_word_eqI) (auto simp: bit_simps)
  ultimately show ?thesis by (simp add: object_of_bytes_def)
qed

lemma of_le16_magic: "of_le16 [b0, b1] = MAGIC_CODE \<longleftrightarrow> b0 = 0x5A \<and> b1 = 0xA5"
proof
  assume "of_le16 [b0, b1] = MAGIC_CODE"
  then have "le16 (of_le16 [b0, b1]) = le16 MAGIC_CODE" by simp
  then show "b0 = 0x5A \<and> b1 = 0xA5"
    unfolding le16_of_le16 by (simp add: le16_def MAGIC_CODE_def)
next
  assume "b0 = 0x5A \<and> b1 = 0xA5"
  then show "of_le16 [b0, b1] = MAGIC_CODE"
    by (simp add: of_le16_def MAGIC_CODE_def)
qed

lemma stored_magic:
  "magic (stored_settings s) = MAGIC_CODE \<longleftrightarrow> mem s 4 = 0x5A \<and> mem s 5 = 0xA5"
proof -
  have "magic (stored_settings s) = of_le16 [mem s 4, mem s 5]"
    by (simp add: stored_settings_def sizeof_SystemSettings_def object_of_bytes_def of_le16_def)
  then show ?thesis by (simp only: of_le16_magic)
qed

lemma stored_checksum:
  "checksum (stored_settings s) = mem s 39"
  "calc_checksum (stored_settings s) = sum_list (map (mem s) [0..<39])"
proof -
  have len: "length (map (mem s) [0..<40]) = 40" by simp
  have "butlast (map (mem s) [0..<40]) = take 39 (map (mem s) [0..<40])"
    by (simp add: butlast_conv_take)
  also have "\<dots> = map (mem s) [0..<39]" by (simp add: take_map)
  finally have pre: "butlast (map (mem s) [0..<40]) = map (mem s) [0..<39]" .
  show "checksum (stored_settings s) = mem s 39"
    unfolding stored_settings_def sizeof_SystemSettings_def reload_checksum (1) [OF len]
    by simp
  show "calc_checksum (stored_settings s) = sum_list (map (mem s) [0..<39])"
    unfolding stored_settings_def sizeof_SystemSettings_def reload_checksum (2) [OF len]
    by (simp only: pre)
qed

lemma cells_valid_iff:
  "spec_cells_valid s \<longleftrightarrow>
     magic (stored_settings s) = MAGIC_CODE
     \<and> checksum (stored_settings s) = calc_checksum (stored_settings s)"
  by (simp only: spec_cells_valid_def stored_magic stored_checksum conj_assoc)

text \<open>
  C7: on a device that answers, \<^verbatim>\<open>settings_init\<close> always returns, and never with an
  error. It reads the 40 bytes at the settings address. If the cells hold the magic
  constant and, in cell 39, the sum of cells 0 to 38, then \<^verbatim>\<open>current_settings\<close> is the
  stored record, byte for byte, and apart from the read nothing is sent to the device.
  Otherwise \<^verbatim>\<open>current_settings\<close> gets the defaults (the magic constant, the string
  \<open>MyWifi\<close> with its terminating zero, volume 50, offset 0) and is saved once: one page
  write of the 40 bytes, after which the cells hold that record and are valid.
\<close>

theorem settings_init_load_or_repair:
  assumes "busy s = 0" and "twr s = enat k"
  shows "(spec_cells_valid s \<longrightarrow>
            (\<exists>s'. settings_init s = Some s'
               \<and> current_settings s' = stored_settings s
               \<and> object_bytes (current_settings s') = map (mem s) [0..<sizeof_SystemSettings]
               \<and> new_events s s'
                   = [BusWrite AT24C256_ADDRESS [0, 0] True 2,
                      BusRead AT24C256_ADDRESS sizeof_SystemSettings False 40]
               \<and> mem s' = mem s))
       \<and> (\<not> spec_cells_valid s \<longrightarrow>
            (\<exists>s'. settings_init s = Some s'
               \<and> magic (current_settings s') = MAGIC_CODE
               \<and> take 7 (wifi_ssid (current_settings s'))
                   = map (\<lambda>c. of_nat (of_char c)) ''MyWifi'' @ [0]
               \<and> drop 7 (wifi_ssid (current_settings s'))
                   = drop 7 (wifi_ssid (stored_settings s))
               \<and> volume (current_settings s') = 50
               \<and> motor_offset (current_settings s') = 0
               \<and> checksum (current_settings s') = calc_checksum (current_settings s')
               \<and> take 2 (new_events s s')
                   = [BusWrite AT24C256_ADDRESS [0, 0] True 2,
                      BusRead AT24C256_ADDRESS sizeof_SystemSettings False 40]
               \<and> filter is_page_write (new_events s s')
                   = [page_write_event SETTINGS_ADDR (object_bytes (current_settings s'))]
               \<and> length (object_bytes (current_settings s')) = sizeof_SystemSettings
               \<and> map (mem s') [0..<sizeof_SystemSettings]
                   = object_bytes (current_settings s')
               \<and> spec_cells_valid s'))"
proof (intro conjI impI)
  let ?r = "object_of_bytes (map (mem s) [0..<40])"
  let ?s1 = "snd (eeprom_read_buffer SETTINGS_ADDR (object_bytes (current_settings s)) 40 s)"
  assume v: "spec_cells_valid s"
  then have init: "settings_init s = Some (?s1\<lparr>current_settings := ?r\<rparr>)"
    by (simp add: settings_init_unfold [OF assms(1)] cells_valid_iff stored_settings_def
        sizeof_SystemSettings_def)
  have bytes: "object_bytes ?r = map (mem s) [0..<40]"
    by (rule object_bytes_of_bytes) simp
  show "\<exists>s'. settings_init s = Some s'
               \<and> current_settings s' = stored_settings s
               \<and> object_bytes (current_settings s') = map (mem s) [0..<sizeof_SystemSettings]
               \<and> new_events s s'
                   = [BusWrite AT24C256_ADDRESS [0, 0] True 2,
                      BusRead AT24C256_ADDRESS sizeof_SystemSettings False 40]
               \<and> mem s' = mem s"
    unfolding init
    by (simp add: stored_settings_def sizeof_SystemSettings_def bytes new_events_def
        read_settings_state [OF assms(1)])
next
  let ?r = "object_of_bytes (map (mem s) [0..<40])"
  let ?s1 = "snd (eeprom_read_buffer SETTINGS_ADDR (object_bytes (current_settings s)) 40 s)"
  define d where "d = ?r\<lparr>magic := MAGIC_CODE, wifi_ssid := strcpy (wifi_ssid ?r) ''MyWifi'',
                       volume := 50, motor_offset := 0\<rparr>"
  define s2 where "s2 = ?s1\<lparr>current_settings := d\<rparr>"
  assume "\<not> spec_cells_valid s"
  then have init: "settings_init s = settings_save s2"
    by (simp add: settings_init_unfold [OF assms(1)] cells_valid_iff stored_settings_def
        sizeof_SystemSettings_def s2_def d_def)
  have b2: "busy s2 = 0" and k2: "twr s2 = enat k"
    and t2: "trace s2 = trace s @ [BusWrite AT24C256_ADDRESS [0, 0] True 2,
                                   BusRead AT24C256_ADDRESS 40 False 40]"
    using assms by (simp_all add: s2_def read_settings_state [OF assms(1)])
  from settings_save_ready [OF b2 k2]
  obtain s' where sv: "settings_save s2 = Some s'"
    and cs: "current_settings s' = d\<lparr>checksum := calc_checksum d\<rparr>"
    and cells: "\<And>j. mem s' j = (if j < 40 then object_bytes (current_settings s') ! j else mem s2 j)"
    and tr: "trace s' = trace s2 @ page_write_event SETTINGS_ADDR (object_bytes (current_settings s'))
                                    # ready_barrier (dummy_at s2 (wait_calls s2)) k"
    by (auto simp: s2_def)
  let ?c = "current_settings s'"
  have len: "length (object_bytes ?c) = 40" by (rule length_object_bytes)
  have ev: "new_events s s'
            = [BusWrite AT24C256_ADDRESS [0, 0] True 2, BusRead AT24C256_ADDRESS 40 False 40,
               page_write_event SETTINGS_ADDR (object_bytes ?c)]
              @ ready_barrier (dummy_at s2 (wait_calls s2)) k"
    by (simp add: new_events_def tr t2)
  have pw: "filter is_page_write (new_events s s')
            = [page_write_event SETTINGS_ADDR (object_bytes ?c)]"
    using len by (auto simp: ev filter_ready_barrier is_page_write_event)
  have img: "map (mem s') [0..<40] = object_bytes ?c"
    by (rule nth_equalityI) (simp_all add: len cells)
  have sum: "checksum ?c = calc_checksum ?c"
    unfolding cs calc_checksum_sum
    by (simp add: butlast_object_bytes_checksum)
  have fields: "magic ?c = MAGIC_CODE" "volume ?c = 50" "motor_offset ?c = 0"
    "take 7 (wifi_ssid ?c) = map (\<lambda>c. of_nat (of_char c)) ''MyWifi'' @ [0]"
    "drop 7 (wifi_ssid ?c) = drop 7 (wifi_ssid (stored_settings s))"
    unfolding cs d_def
    by (simp_all add: strcpy_MyWifi stored_settings_def sizeof_SystemSettings_def
        del: list.map)
  have st: "stored_settings s' = object_of_bytes (object_bytes ?c)"
    by (simp add: stored_settings_def sizeof_SystemSettings_def img)
  have "magic (stored_settings s') = MAGIC_CODE"
    unfolding st magic_of_object_bytes by (rule fields(1))
  moreover have "checksum (stored_settings s') = calc_checksum (stored_settings s')"
    unfolding st reload_checksum [OF len]
    using sum by (simp add: object_bytes_nth_39 calc_checksum_sum)
  ultimately have valid: "spec_cells_valid s'" by (simp only: cells_valid_iff)
  show "\<exists>s'. settings_init s = Some s'
               \<and> magic (current_settings s') = MAGIC_CODE
               \<and> take 7 (wifi_ssid (current_settings s'))
                   = map (\<lambda>c. of_nat (of_char c)) ''MyWifi'' @ [0]
               \<and> drop 7 (wifi_ssid (current_settings s'))
                   = drop 7 (wifi_ssid (stored_settings s))
               \<and> volume (current_settings s') = 50
               \<and> motor_offset (current_settings s') = 0
               \<and> checksum (current_settings s') = calc_checksum (current_settings s')
               \<and> take 2 (new_events s s')
                   = [BusWrite AT24C256_ADDRESS [0, 0] True 2,
                      BusRead AT24C256_ADDRESS sizeof_SystemSettings False 40]
               \<and> filter is_page_write (new_events s s')
                   = [page_write_event SETTINGS_ADDR (object_bytes (current_settings s'))]
               \<and> length (object_bytes (current_settings s')) = sizeof_SystemSettings
               \<and> map (mem s') [0..<sizeof_SystemSettings]
                   = object_bytes (current_settings s')
               \<and> spec_cells_valid s'"
    unfolding init using sv fields sum valid pw len img
    by (simp add: ev sizeof_SystemSettings_def)
qed

theorem settings_init_load_or_repair_witness:
  "busy blank_world = 0 \<and> twr blank_world = enat 5000
   \<and> \<not> spec_cells_valid blank_world
   \<and> (\<exists>s'. settings_init blank_world = Some s'
          \<and> magic (current_settings s') = MAGIC_CODE
          \<and> volume (current_settings s') = 50
          \<and> filter is_page_write (new_events blank_world s')
              = [page_write_event SETTINGS_ADDR (object_bytes (current_settings s'))]
          \<and> spec_cells_valid s')
   \<and> busy formatted_world = 0 \<and> twr formatted_world = enat 5000
   \<and> spec_cells_valid formatted_world
   \<and> (\<exists>s'. settings_init formatted_world = Some s'
          \<and> current_settings s' = stored_settings formatted_world
          \<and> mem s' = mem formatted_world)
   \<and> busy corrupt_world = 0 \<and> twr corrupt_world = enat 5000
   \<and> mem corrupt_world 4 = 0x5A \<and> mem corrupt_world 5 = 0xA5
   \<and> \<not> spec_cells_valid corrupt_world
   \<and> (\<exists>s'. settings_init corrupt_world = Some s'
          \<and> filter is_page_write (new_events corrupt_world s')
              = [page_write_event SETTINGS_ADDR (object_bytes (current_settings s'))]
          \<and> spec_cells_valid s')"
proof -
  have b: "busy blank_world = 0" and k: "twr blank_world = enat 5000"
    by (simp_all add: blank_world_def)
  have b': "busy formatted_world = 0" and k': "twr formatted_world = enat 5000"
    by (simp_all add: formatted_world_def blank_world_def)
  have inv: "\<not> spec_cells_valid blank_world"
    by (simp add: spec_cells_valid_def blank_world_def)
  have img: "map (mem formatted_world) [0..<40] = object_bytes default_settings"
    by (rule nth_equalityI) (simp_all add: length_object_bytes formatted_world_def)
  have st: "stored_settings formatted_world = object_of_bytes (object_bytes default_settings)"
    by (simp add: stored_settings_def sizeof_SystemSettings_def img)
  have "magic (stored_settings formatted_world) = MAGIC_CODE"
    unfolding st magic_of_object_bytes by (simp add: default_settings_def)
  moreover have "checksum (stored_settings formatted_world)
                 = calc_checksum (stored_settings formatted_world)"
    unfolding st reload_checksum [OF length_object_bytes]
    by (simp add: object_bytes_nth_39 default_settings_sum [unfolded calc_checksum_sum])
       (simp add: default_settings_def)
  ultimately have val: "spec_cells_valid formatted_world"
    by (simp only: cells_valid_iff)
  have b'': "busy corrupt_world = 0" and k'': "twr corrupt_world = enat 5000"
    by (simp_all add: corrupt_world_def formatted_world_def blank_world_def)
  have mg: "mem corrupt_world 4 = 0x5A" "mem corrupt_world 5 = 0xA5"
    using val by (simp_all add: spec_cells_valid_def corrupt_world_def)
  have "map (mem corrupt_world) [0..<39] = butlast (object_bytes default_settings)"
    by (rule nth_equalityI)
       (simp_all add: length_object_bytes corrupt_world_def formatted_world_def nth_butlast)
  then have "sum_list (map (mem corrupt_world) [0..<39]) = 0x86"
    by (simp only: default_settings_sum [unfolded calc_checksum_sum])
  then have inv': "\<not> spec_cells_valid corrupt_world"
    by (simp add: spec_cells_valid_def) (simp add: corrupt_world_def)
  show ?thesis
    using settings_init_load_or_repair [OF b k] settings_init_load_or_repair [OF b' k']
      settings_init_load_or_repair [OF b'' k''] b k b' k' b'' k'' inv val inv' mg
    by blast
qed

end
